theory Spec2Isabelle
  imports Complex_Main "HOL-Library.Multiset" "HOL-Library.Char_ord" "HOL-Library.List_Lexorder"
begin

section \<open>Data model\<close>

text \<open>
  The scraper passes one extraction result around as a Python dict \<open>stats\<close>. The record
  below has one field per key the persistence code reads; \<open>None\<close> stands for "key absent
  or value None" (for the two boolean keys and for \<open>insights_data\<close>, which are read with
  a default, \<open>None\<close> is "key absent"). \<open>delivered_count\<close> is a Python int.
  \<open>complaint_rate\<close> is a Python float; it is modelled as the rational it denotes and
  arithmetic on it is exact, so the rounding of float operations is outside this model.
  The value of \<open>insights_data\<close> is None, a string, or another object.
\<close>

datatype pyvalue = PyNone | PyStr string | PyObj string

record stats =
  domain :: "string option"
  status :: "string option"
  verified :: "bool option"
  added_date :: "string option"
  timestamp :: "string option"
  delivered_count :: "int option"
  delivered_percentage :: "string option"
  complaint_rate :: "rat option"
  complaint_percentage :: "string option"
  complaint_trend :: "string option"
  time_range :: "string option"
  insights_data :: "pyvalue option"
  screenshot_path :: "string option"
  has_data :: "bool option"

section \<open>FileManager: the per-domain JSON document\<close>

text \<open>
  \<open>existing_data['accounts'][account_email]\<close> is a dict with the keys \<open>last_updated\<close> and
  \<open>data\<close>; \<open>aggregated_metrics\<close> is the dict built at the end of
  \<open>calculate_aggregated_metrics\<close>. Python's \<open>/\<close> is true division, here exact.
\<close>

record account_data =
  acc_last_updated :: string
  data :: stats

record aggregated =
  average_delivered :: rat
  average_complaint_rate :: rat
  verified_accounts :: nat
  accounts_with_data :: nat
  total_accounts :: nat

text \<open>
  A Python dict keeps its keys distinct and in insertion order: an association list.
  \<open>setitem k v d\<close> is \<open>d[k] = v\<close>: an existing key keeps its place, a new key goes last.
\<close>

type_synonym ('k, 'v) dict = "('k \<times> 'v) list"

fun setitem :: "'k \<Rightarrow> 'v \<Rightarrow> ('k, 'v) dict \<Rightarrow> ('k, 'v) dict" where
  "setitem k v [] = [(k, v)]"
| "setitem k v ((k', v') # d) = (if k' = k then (k, v) # d else (k', v') # setitem k v d)"

text \<open>
  The document \<open>existing_data\<close>/\<open>domain_data\<close>: every top-level key may be absent, as in
  the \<open>{}\<close> the code starts from when there is no file.
\<close>

record domain_data =
  doc_domain :: "string option"
  accounts :: "(string, account_data) dict option"
  doc_last_updated :: "string option"
  latest_data :: "stats option"
  doc_total_accounts :: "nat option"
  aggregated_metrics :: "aggregated option"

definition empty_doc :: domain_data where
  "empty_doc = \<lparr>doc_domain = None, accounts = None, doc_last_updated = None,
     latest_data = None, doc_total_accounts = None, aggregated_metrics = None\<rparr>"

text \<open>
  The loop of \<open>calculate_aggregated_metrics\<close> over \<open>accounts.items()\<close>, with its four
  accumulators \<open>delivered_counts\<close>, \<open>complaint_rates\<close>, \<open>verified_count\<close> and
  \<open>has_data_count\<close>.
\<close>

fun aggregate_loop ::
  "(string \<times> account_data) list \<Rightarrow> int list \<times> rat list \<times> nat \<times> nat \<Rightarrow> int list \<times> rat list \<times> nat \<times> nat"
where
  "aggregate_loop [] acc = acc"
| "aggregate_loop ((account_email, account_dat) # rest) (delivered_counts, complaint_rates, verified_count, has_data_count) =
     (let d = data account_dat;
          delivered_counts' = (case delivered_count d of None \<Rightarrow> delivered_counts
                               | Some delivered \<Rightarrow> delivered_counts @ [delivered]);
          complaint_rates' = (case complaint_rate d of None \<Rightarrow> complaint_rates
                              | Some complaint \<Rightarrow> complaint_rates @ [complaint]);
          verified_count' = (if verified d = Some True then verified_count + 1 else verified_count);
          has_data_count' = (if (case has_data d of None \<Rightarrow> True | Some b \<Rightarrow> b)
                             then has_data_count + 1 else has_data_count)
      in aggregate_loop rest (delivered_counts', complaint_rates', verified_count', has_data_count'))"

definition calculate_aggregated_metrics :: "domain_data \<Rightarrow> domain_data" where
  "calculate_aggregated_metrics domain_dat =
     (let accs = (case accounts domain_dat of None \<Rightarrow> [] | Some a \<Rightarrow> a) in
      if accs = [] then domain_dat
      else
        (case aggregate_loop accs ([], [], 0, 0) of
           (delivered_counts, complaint_rates, verified_count, has_data_count) \<Rightarrow>
             domain_dat\<lparr>aggregated_metrics := Some
               \<lparr>average_delivered =
                  (if delivered_counts \<noteq> []
                   then of_int (sum_list delivered_counts) / of_nat (length delivered_counts) else 0),
                average_complaint_rate =
                  (if complaint_rates \<noteq> []
                   then sum_list complaint_rates / of_nat (length complaint_rates) else 0),
                verified_accounts = verified_count,
                accounts_with_data = has_data_count,
                total_accounts = length accs\<rparr>\<rparr>))"

text \<open>
  The file system as far as \<open>save_domain_json\<close> sees it: a path has no file, a file that
  \<open>json.load\<close> rejects, or a file holding a document. \<open>json.load\<close> builds each dict by
  inserting the pairs of the JSON object in order, so a repeated key keeps its last value.
\<close>

datatype json_file = Unparsable | Json domain_data

type_synonym filesystem = "string \<Rightarrow> json_file option"

definition dict_of_pairs :: "('k \<times> 'v) list \<Rightarrow> ('k, 'v) dict" where
  "dict_of_pairs ps = fold (\<lambda>(k, v). setitem k v) ps []"

definition json_load :: "domain_data \<Rightarrow> domain_data" where
  "json_load doc = doc\<lparr>accounts := map_option dict_of_pairs (accounts doc)\<rparr>"

definition get_json_path :: "string \<Rightarrow> string" where
  "get_json_path dn =
     (let name = dn @ ''_stats.json'' in
      if name \<noteq> [] \<and> hd name = CHR ''/'' then name else ''data/'' @ name)"

text \<open>
  \<open>save_domain_json\<close> in its three parts: reading the existing document (a missing or
  unreadable file gives \<open>{}\<close>), the changes made in memory, and writing the document back.
  \<open>now1\<close> and \<open>now2\<close> are the two readings of \<open>datetime.now().isoformat()\<close>. Failures of
  the final \<open>open\<close>/\<open>json.dump\<close> (a full disk, a missing directory) are not modelled.
\<close>

definition read_existing :: "filesystem \<Rightarrow> string \<Rightarrow> domain_data" where
  "read_existing fs dn =
     (case fs (get_json_path dn) of
        None \<Rightarrow> empty_doc
      | Some Unparsable \<Rightarrow> empty_doc
      | Some (Json doc) \<Rightarrow> json_load doc)"

definition merge_contribution ::
  "string \<Rightarrow> stats \<Rightarrow> string \<Rightarrow> string \<Rightarrow> string \<Rightarrow> domain_data \<Rightarrow> domain_data" where
  "merge_contribution dn st account_email now1 now2 existing_data =
     (let e1 = (if doc_domain existing_data = None then existing_data\<lparr>doc_domain := Some dn\<rparr>
                else existing_data);
          e2 = (if accounts e1 = None then e1\<lparr>accounts := Some []\<rparr> else e1);
          accs = setitem account_email \<lparr>acc_last_updated = now1, data = st\<rparr> (the (accounts e2));
          e3 = e2\<lparr>accounts := Some accs\<rparr>;
          e4 = e3\<lparr>doc_last_updated := Some now2\<rparr>;
          e5 = e4\<lparr>latest_data := Some st\<rparr>;
          e6 = e5\<lparr>doc_total_accounts := Some (length accs)\<rparr>
      in calculate_aggregated_metrics e6)"

definition write_back :: "filesystem \<Rightarrow> string \<Rightarrow> domain_data \<Rightarrow> filesystem" where
  "write_back fs dn doc = fs(get_json_path dn \<mapsto> Json doc)"

definition save_domain_json ::
  "filesystem \<Rightarrow> string \<Rightarrow> stats \<Rightarrow> string \<Rightarrow> string \<Rightarrow> string \<Rightarrow> filesystem \<times> string" where
  "save_domain_json fs dn st account_email now1 now2 =
     (write_back fs dn (merge_contribution dn st account_email now1 now2 (read_existing fs dn)),
      get_json_path dn)"

text \<open>The contributions of a document that carry a metric, and the mean of a list.\<close>

definition with_delivered :: "(string \<times> account_data) list \<Rightarrow> (string \<times> account_data) list" where
  "with_delivered accs = filter (\<lambda>p. delivered_count (data (snd p)) \<noteq> None) accs"

definition with_complaint :: "(string \<times> account_data) list \<Rightarrow> (string \<times> account_data) list" where
  "with_complaint accs = filter (\<lambda>p. complaint_rate (data (snd p)) \<noteq> None) accs"

definition mean :: "rat list \<Rightarrow> rat" where
  "mean xs = sum_list xs / of_nat (length xs)"

text \<open>
  The same metrics written with list functions over the records of the contributions;
  \<open>calculate_aggregated_metrics\<close> is shown below to compute exactly this.
\<close>

definition summary :: "stats list \<Rightarrow> aggregated" where
  "summary ds =
     \<lparr>average_delivered =
        (if List.map_filter delivered_count ds = [] then 0
         else of_int (sum_list (List.map_filter delivered_count ds))
              / of_nat (length (List.map_filter delivered_count ds))),
      average_complaint_rate =
        (if List.map_filter complaint_rate ds = [] then 0
         else sum_list (List.map_filter complaint_rate ds)
              / of_nat (length (List.map_filter complaint_rate ds))),
      verified_accounts = length (filter (\<lambda>d. verified d = Some True) ds),
      accounts_with_data = length (filter (\<lambda>d. has_data d \<noteq> Some False) ds),
      total_accounts = length ds\<rparr>"

text \<open>
  \<open>domain_data.get('accounts', {})\<close>, and the metrics of the document stored for a domain.
\<close>

definition accounts_or_empty :: "domain_data \<Rightarrow> (string, account_data) dict" where
  "accounts_or_empty doc = (case accounts doc of None \<Rightarrow> [] | Some a \<Rightarrow> a)"

definition stored_doc :: "filesystem \<Rightarrow> string \<Rightarrow> domain_data option" where
  "stored_doc fs dn = (case fs (get_json_path dn) of Some (Json doc) \<Rightarrow> Some doc | _ \<Rightarrow> None)"

definition stored_metrics :: "filesystem \<Rightarrow> string \<Rightarrow> aggregated option" where
  "stored_metrics fs dn = (case stored_doc fs dn of Some doc \<Rightarrow> aggregated_metrics doc | None \<Rightarrow> None)"

text \<open>
  A sequence of \<open>save_domain_json\<close> calls for one domain, one after the other, in arrival
  order. An arrival is (account_email, stats, now1, now2).
\<close>

type_synonym arrival = "string \<times> stats \<times> string \<times> string"

definition contribution :: "arrival \<Rightarrow> string \<times> stats" where
  "contribution c = (case c of (account_email, st, now1, now2) \<Rightarrow> (account_email, st))"

definition entry :: "arrival \<Rightarrow> string \<times> account_data" where
  "entry c = (case c of (account_email, st, now1, now2) \<Rightarrow>
     (account_email, \<lparr>acc_last_updated = now1, data = st\<rparr>))"

definition merge_all :: "filesystem \<Rightarrow> string \<Rightarrow> arrival list \<Rightarrow> filesystem" where
  "merge_all fs dn cs =
     fold (\<lambda>c fs'. case c of (account_email, st, now1, now2) \<Rightarrow>
             fst (save_domain_json fs' dn st account_email now1 now2)) cs fs"








section \<open>DatabaseManager: the PostgreSQL store\<close>

text \<open>
  The four tables of \<open>init_database\<close>, column by column. A nullable column is an option.
  A table is absent (dropped, never created) or holds its rows and the next value of its
  \<open>SERIAL\<close> sequence. \<open>DATE\<close> values are day numbers and \<open>TIMESTAMP\<close> values are
  instants, both naturals; the \<open>TEXT\<close> column \<open>timestamp\<close> is compared as text, in
  the lexicographic order of strings.
\<close>

record stat_row =
  c_id :: nat
  c_account_email :: string
  c_domain_name :: string
  c_status :: "string option"
  c_verified :: "bool option"
  c_added_date :: "string option"
  c_timestamp :: string
  c_date :: nat
  c_delivered_count :: "int option"
  c_delivered_percentage :: "string option"
  c_complaint_rate :: "rat option"
  c_complaint_percentage :: "string option"
  c_complaint_trend :: "string option"
  c_time_range :: "string option"
  c_insights_data :: "string option"
  c_full_data :: "string option"
  c_screenshot_path :: "string option"
  c_has_data :: "bool option"
  c_created_at :: nat

record api_key_row =
  k_id :: nat
  k_api_key :: string
  k_name :: "string option"
  k_is_active :: "bool option"
  k_created_at :: nat
  k_last_used :: "nat option"

record session_row =
  s_id :: nat
  s_account_email :: string
  s_session_start :: string
  s_session_end :: "string option"
  s_domains_processed :: "int option"
  s_total_domains :: "int option"
  s_status :: "string option"
  s_created_at :: nat

record account_row =
  a_id :: nat
  a_email :: string
  a_name :: "string option"
  a_last_used :: "nat option"
  a_total_sessions :: "int option"
  a_is_active :: "bool option"
  a_created_at :: nat

record 'r table =
  next_id :: nat
  rows :: "'r list"

record database =
  domain_stats :: "stat_row table option"
  api_keys :: "api_key_row table option"
  scraping_sessions :: "session_row table option"
  scraping_accounts :: "account_row table option"

definition empty_table :: "'r table" where
  "empty_table = \<lparr>next_id = 1, rows = []\<rparr>"

text \<open>
  What the outside world does to one use of \<open>get_cursor\<close>: which hosts accept a
  connection (\<open>psycopg2.connect\<close> succeeds), and whether the transaction then runs to its
  commit (\<open>tx_ok\<close>; a connection lost halfway makes a statement or the commit raise).
  Every host that accepts a connection serves the same database.
\<close>

record conn_env =
  reach :: "string \<Rightarrow> bool"
  tx_ok :: bool

datatype db_error =
  OperationalError | NotNullViolation | NumericValueOutOfRange | UndefinedTable | InvalidRowCount

record db_manager =
  config_host :: string
  db_available :: bool

definition possible_hosts :: "string list" where
  "possible_hosts = [''postgres'', ''localhost'', ''db'', ''database'']"

text \<open>\<open>DatabaseManager()\<close> with the default configuration (\<open>DB_HOST\<close> unset).\<close>

definition new_manager :: db_manager where
  "new_manager = \<lparr>config_host = ''localhost'', db_available = True\<rparr>"

text \<open>
  \<open>get_connection\<close>: the hosts of \<open>possible_hosts\<close> in order, then the configured host;
  the first that connects is remembered in \<open>db_config['host']\<close>. When none connects,
  \<open>db_available\<close> becomes false and no connection is returned.
\<close>

definition get_connection :: "conn_env \<Rightarrow> db_manager \<Rightarrow> string option \<times> db_manager" where
  "get_connection env mgr =
     (if \<not> db_available mgr then (None, mgr)
      else
        (case List.find (reach env) possible_hosts of
           Some host \<Rightarrow> (Some host, mgr\<lparr>config_host := host\<rparr>)
         | None \<Rightarrow>
             if reach env (config_host mgr) then (Some (config_host mgr), mgr)
             else (None, mgr\<lparr>db_available := False\<rparr>)))"

text \<open>
  \<open>get_cursor\<close> yields the \<open>DummyCursor\<close> when there is no connection (\<open>execute\<close> does
  nothing, \<open>fetchone\<close> gives None, \<open>fetchall\<close> gives []), and a real cursor otherwise.
  With a real cursor the body's changes are committed when it ends normally and rolled
  back when it raises; each operation below writes that out.
\<close>

datatype cursor = DummyCursor | RealCursor

definition get_cursor :: "conn_env \<Rightarrow> db_manager \<Rightarrow> cursor \<times> db_manager" where
  "get_cursor env mgr =
     (case get_connection env mgr of
        (None, mgr') \<Rightarrow> (DummyCursor, mgr')
      | (Some conn, mgr') \<Rightarrow> (RealCursor, mgr'))"

subsection \<open>init\_database and the start of main\<close>

definition sample_api_key :: "nat \<Rightarrow> nat \<Rightarrow> api_key_row" where
  "sample_api_key rid now =
     \<lparr>k_id = rid, k_api_key = ''test-api-key-12345'', k_name = Some ''Default API Key'',
      k_is_active = Some True, k_created_at = now, k_last_used = None\<rparr>"

text \<open>
  The statements of \<open>init_database\<close> in their order: four \<open>DROP TABLE IF EXISTS\<close>, four
  \<open>CREATE TABLE\<close>, and the insertion of the sample API key. Each \<open>CREATE TABLE\<close> follows
  the drop of that table, so none of them can find the table present.
\<close>

definition init_statements :: "nat \<Rightarrow> database \<Rightarrow> database" where
  "init_statements now db =
     (let db1 = db\<lparr>domain_stats := None\<rparr>;
          db2 = db1\<lparr>scraping_sessions := None\<rparr>;
          db3 = db2\<lparr>scraping_accounts := None\<rparr>;
          db4 = db3\<lparr>api_keys := None\<rparr>;
          db5 = db4\<lparr>domain_stats := Some empty_table\<rparr>;
          db6 = db5\<lparr>api_keys := Some empty_table\<rparr>;
          db7 = db6\<lparr>scraping_sessions := Some empty_table\<rparr>;
          db8 = db7\<lparr>scraping_accounts := Some empty_table\<rparr>
      in db8\<lparr>api_keys := map_option
           (\<lambda>t. \<lparr>next_id = next_id t + 1, rows = rows t @ [sample_api_key (next_id t) now]\<rparr>)
           (api_keys db8)\<rparr>)"

text \<open>
  \<open>init_database\<close>: up to three attempts. \<open>envs attempt\<close> is the outside world at that
  attempt and \<open>now attempt\<close> its \<open>CURRENT_TIMESTAMP\<close>. With the dummy cursor the body
  returns at once (\<open>db_available\<close> is false then, and \<open>execute\<close> does nothing anyway).
  An attempt that raises is rolled back; the last one sets \<open>db_available\<close> to false and
  re-raises.
\<close>

function init_database_from ::
  "nat \<Rightarrow> (nat \<Rightarrow> conn_env) \<Rightarrow> (nat \<Rightarrow> nat) \<Rightarrow> db_manager \<Rightarrow> database
   \<Rightarrow> (db_error + unit) \<times> db_manager \<times> database" where
  "init_database_from attempt envs now mgr db =
     (if attempt \<ge> 3 then (Inr (), mgr, db)
      else
        (case get_cursor (envs attempt) mgr of
           (DummyCursor, mgr1) \<Rightarrow> (Inr (), mgr1, db)
         | (RealCursor, mgr1) \<Rightarrow>
             if \<not> db_available mgr1 then (Inr (), mgr1, db)
             else if tx_ok (envs attempt) then (Inr (), mgr1, init_statements (now attempt) db)
             else if attempt < 3 - 1 then init_database_from (attempt + 1) envs now mgr1 db
             else (Inl OperationalError, mgr1\<lparr>db_available := False\<rparr>, db)))"
  by pat_completeness auto
termination
  by (relation "measure (\<lambda>(attempt, envs, now, mgr, db). 3 - attempt)") auto

definition init_database ::
  "(nat \<Rightarrow> conn_env) \<Rightarrow> (nat \<Rightarrow> nat) \<Rightarrow> db_manager \<Rightarrow> database
   \<Rightarrow> (db_error + unit) \<times> db_manager \<times> database" where
  "init_database envs now mgr db = init_database_from 0 envs now mgr db"

text \<open>
  The initialisation loop of \<open>main\<close>: up to five calls of \<open>init_database\<close>; \<open>envs k\<close> and
  \<open>now k\<close> belong to call \<open>k\<close>. The result is \<open>db_initialized\<close>, the manager and the
  database.
\<close>

function main_init_from ::
  "nat \<Rightarrow> (nat \<Rightarrow> nat \<Rightarrow> conn_env) \<Rightarrow> (nat \<Rightarrow> nat \<Rightarrow> nat) \<Rightarrow> db_manager \<Rightarrow> database
   \<Rightarrow> bool \<times> db_manager \<times> database" where
  "main_init_from db_attempt envs now mgr db =
     (if db_attempt \<ge> 5 then (False, mgr, db)
      else
        (case init_database (envs db_attempt) (now db_attempt) mgr db of
           (Inr u, mgr1, db1) \<Rightarrow> (True, mgr1, db1)
         | (Inl e, mgr1, db1) \<Rightarrow>
             if db_attempt + 1 < 5 then main_init_from (db_attempt + 1) envs now mgr1 db1
             else (False, mgr1\<lparr>db_available := False\<rparr>, db1)))"
  by pat_completeness auto
termination
  by (relation "measure (\<lambda>(db_attempt, envs, now, mgr, db). 5 - db_attempt)") auto

definition main_init ::
  "(nat \<Rightarrow> nat \<Rightarrow> conn_env) \<Rightarrow> (nat \<Rightarrow> nat \<Rightarrow> nat) \<Rightarrow> database \<Rightarrow> bool \<times> db_manager \<times> database" where
  "main_init envs now db = main_init_from 0 envs now new_manager db"

subsection \<open>save\_domain\_stats\<close>

text \<open>
  The conversions at the boundary are parameters. \<open>json.dumps\<close>: \<open>dumps_value\<close> on the
  value of \<open>insights_data\<close> and \<open>dumps_stats\<close> on the whole dict, each giving None where
  \<open>json.dumps\<close> raises TypeError or ValueError. The server's conversion of a float to
  the \<open>REAL\<close> column \<open>complaint_rate\<close>: \<open>to_real4\<close> gives the single-precision value
  that is stored, and None where the value is out of range and the statement fails.
\<close>

record json_module =
  dumps_value :: "pyvalue \<Rightarrow> string option"
  dumps_stats :: "stats \<Rightarrow> string option"
  to_real4 :: "rat \<Rightarrow> rat option"

text \<open>An \<open>INTEGER\<close> column holds the values of a signed 32-bit integer.\<close>

definition int4_range :: "int \<Rightarrow> bool" where
  "int4_range x = (- 2147483648 \<le> x \<and> x \<le> 2147483647)"

definition insights_json :: "json_module \<Rightarrow> stats \<Rightarrow> string" where
  "insights_json js st =
     (case insights_data st of
        None \<Rightarrow> ''{}''
      | Some (PyStr s) \<Rightarrow> s
      | Some v \<Rightarrow> (case dumps_value js v of Some s \<Rightarrow> s | None \<Rightarrow> ''{}''))"

definition full_data_json :: "json_module \<Rightarrow> stats \<Rightarrow> string" where
  "full_data_json js st = (case dumps_stats js st of Some s \<Rightarrow> s | None \<Rightarrow> ''{}'')"

text \<open>
  The row proposed by the \<open>VALUES\<close> list of the \<open>INSERT\<close>, for a record that has a
  domain and a timestamp and whose numbers fit their columns; \<open>rid\<close> is the value drawn
  from the sequence and \<open>now\<close> is \<open>CURRENT_TIMESTAMP\<close>. The complaint rate is stored as
  the server converts it.
\<close>

definition values_row :: "json_module \<Rightarrow> stats \<Rightarrow> string \<Rightarrow> nat \<Rightarrow> nat \<Rightarrow> nat \<Rightarrow> stat_row" where
  "values_row js st account_email current_date now rid =
     \<lparr>c_id = rid,
      c_account_email = account_email,
      c_domain_name = the (domain st),
      c_status = status st,
      c_verified = Some (case verified st of None \<Rightarrow> False | Some b \<Rightarrow> b),
      c_added_date = added_date st,
      c_timestamp = the (timestamp st),
      c_date = current_date,
      c_delivered_count = delivered_count st,
      c_delivered_percentage = delivered_percentage st,
      c_complaint_rate = (case complaint_rate st of None \<Rightarrow> None | Some x \<Rightarrow> to_real4 js x),
      c_complaint_percentage = complaint_percentage st,
      c_complaint_trend = complaint_trend st,
      c_time_range = time_range st,
      c_insights_data = Some (insights_json js st),
      c_full_data = Some (full_data_json js st),
      c_screenshot_path = screenshot_path st,
      c_has_data = Some (case has_data st of None \<Rightarrow> True | Some b \<Rightarrow> b),
      c_created_at = now\<rparr>"

text \<open>The key of \<open>UNIQUE(account_email, domain_name, date)\<close>.\<close>

definition row_key :: "stat_row \<Rightarrow> string \<times> string \<times> nat" where
  "row_key r = (c_account_email r, c_domain_name r, c_date r)"

text \<open>
  \<open>DO UPDATE SET\<close>: the fourteen columns named there and \<open>created_at\<close> are taken from
  the proposed row (\<open>EXCLUDED\<close>); \<open>id\<close>, \<open>account_email\<close>, \<open>domain_name\<close> and \<open>date\<close>
  stay.
\<close>

definition do_update :: "stat_row \<Rightarrow> stat_row \<Rightarrow> stat_row" where
  "do_update excluded r =
     r\<lparr>c_status := c_status excluded,
       c_verified := c_verified excluded,
       c_added_date := c_added_date excluded,
       c_timestamp := c_timestamp excluded,
       c_delivered_count := c_delivered_count excluded,
       c_delivered_percentage := c_delivered_percentage excluded,
       c_complaint_rate := c_complaint_rate excluded,
       c_complaint_percentage := c_complaint_percentage excluded,
       c_complaint_trend := c_complaint_trend excluded,
       c_time_range := c_time_range excluded,
       c_insights_data := c_insights_data excluded,
       c_full_data := c_full_data excluded,
       c_screenshot_path := c_screenshot_path excluded,
       c_has_data := c_has_data excluded,
       c_created_at := c_created_at excluded\<rparr>"

text \<open>
  \<open>INSERT ... ON CONFLICT (account_email, domain_name, date) DO UPDATE\<close> on the table:
  a row with the key of the proposed row is updated in place, otherwise the proposed row
  is added. The sequence value drawn for the proposed row is used up in both cases.
\<close>

definition insert_on_conflict :: "(nat \<Rightarrow> stat_row) \<Rightarrow> stat_row table \<Rightarrow> stat_row table" where
  "insert_on_conflict proposed t =
     (let new = proposed (next_id t) in
      \<lparr>next_id = next_id t + 1,
       rows = (if list_ex (\<lambda>r. row_key r = row_key new) (rows t)
               then map (\<lambda>r. if row_key r = row_key new then do_update new r else r) (rows t)
               else rows t @ [new])\<rparr>)"

text \<open>
  The statement as the server runs it: the table must exist, \<open>delivered_count\<close> must
  fit \<open>INTEGER\<close> and \<open>complaint_rate\<close> must fit \<open>REAL\<close>, and the \<open>NOT NULL\<close> columns
  \<open>domain_name\<close> and \<open>timestamp\<close> must get a value (\<open>account_email\<close> is a Python str and
  \<open>date\<close> is \<open>date.today()\<close>); these checks of the proposed row come before the search
  for a conflict.
\<close>

definition execute_upsert ::
  "json_module \<Rightarrow> stats \<Rightarrow> string \<Rightarrow> nat \<Rightarrow> nat \<Rightarrow> database \<Rightarrow> db_error + database" where
  "execute_upsert js st account_email current_date now db =
     (case domain_stats db of
        None \<Rightarrow> Inl UndefinedTable
      | Some t \<Rightarrow>
          if (case delivered_count st of None \<Rightarrow> False | Some x \<Rightarrow> \<not> int4_range x)
             \<or> (case complaint_rate st of None \<Rightarrow> False | Some x \<Rightarrow> to_real4 js x = None)
          then Inl NumericValueOutOfRange
          else if domain st = None \<or> timestamp st = None then Inl NotNullViolation
          else Inr (db\<lparr>domain_stats :=
                 Some (insert_on_conflict (values_row js st account_email current_date now) t)\<rparr>))"

text \<open>
  \<open>save_domain_stats\<close>: the result, the manager and the database afterwards. An exception
  inside the \<open>with\<close> block is rolled back, caught, and turns \<open>db_available\<close> off.
\<close>

definition save_domain_stats ::
  "json_module \<Rightarrow> conn_env \<Rightarrow> nat \<Rightarrow> nat \<Rightarrow> db_manager \<Rightarrow> database \<Rightarrow> stats \<Rightarrow> string
   \<Rightarrow> bool \<times> db_manager \<times> database" where
  "save_domain_stats js env current_date now mgr db st account_email =
     (if \<not> db_available mgr then (False, mgr, db)
      else
        (case get_cursor env mgr of
           (DummyCursor, mgr1) \<Rightarrow> (True, mgr1, db)
         | (RealCursor, mgr1) \<Rightarrow>
             (case (if tx_ok env then execute_upsert js st account_email current_date now db
                    else Inl OperationalError) of
                Inl e \<Rightarrow> (False, mgr1\<lparr>db_available := False\<rparr>, db)
              | Inr db' \<Rightarrow> (True, mgr1, db'))))"

subsection \<open>get\_latest\_domain\_stats and get\_all\_domains\_stats\<close>

text \<open>
  \<open>if account_email:\<close> takes the filtered query for a non-empty string, the unfiltered
  one for None and for the empty string.
\<close>

definition truthy :: "string option \<Rightarrow> bool" where
  "truthy account_email = (case account_email of None \<Rightarrow> False | Some a \<Rightarrow> a \<noteq> [])"

definition where_account :: "string option \<Rightarrow> stat_row list \<Rightarrow> stat_row list" where
  "where_account account_email rs =
     (if truthy account_email then filter (\<lambda>r. c_account_email r = the account_email) rs else rs)"

text \<open>
  \<open>ORDER BY timestamp DESC\<close>. SQL leaves the order of rows with equal timestamps open;
  the model takes one such order, and nothing proved below depends on which.
\<close>

definition order_by_timestamp_desc :: "stat_row list \<Rightarrow> stat_row list" where
  "order_by_timestamp_desc rs = rev (sort_key c_timestamp rs)"

text \<open>\<open>LIMIT n\<close>: a negative \<open>n\<close> is an error of the statement.\<close>

definition limit_rows :: "int \<Rightarrow> stat_row list \<Rightarrow> db_error + stat_row list" where
  "limit_rows n rs = (if n < 0 then Inl InvalidRowCount else Inr (take (nat n) rs))"

text \<open>
  The subquery \<open>ds2\<close>: \<open>SELECT domain_name, MAX(timestamp) ... GROUP BY domain_name\<close>, and
  the join \<open>ON ds1.domain_name = ds2.domain_name AND ds1.timestamp = ds2.max_timestamp\<close>.
\<close>

definition group_max_timestamp :: "stat_row list \<Rightarrow> (string \<times> string) list" where
  "group_max_timestamp rs =
     map (\<lambda>d. (d, Max (set (map c_timestamp (filter (\<lambda>r. c_domain_name r = d) rs)))))
       (remdups (map c_domain_name rs))"

definition inner_join :: "stat_row list \<Rightarrow> (string \<times> string) list \<Rightarrow> stat_row list" where
  "inner_join ds1 ds2 =
     concat (map (\<lambda>r. map (\<lambda>g. r) (filter (\<lambda>g. c_domain_name r = fst g \<and> c_timestamp r = snd g) ds2)) ds1)"

definition select_all_domains :: "int \<Rightarrow> string option \<Rightarrow> database \<Rightarrow> db_error + stat_row list" where
  "select_all_domains row_limit account_email db =
     (case domain_stats db of
        None \<Rightarrow> Inl UndefinedTable
      | Some t \<Rightarrow>
          limit_rows row_limit (order_by_timestamp_desc
            (where_account account_email
               (inner_join (rows t) (group_max_timestamp (where_account account_email (rows t)))))))"

definition get_all_domains_stats ::
  "conn_env \<Rightarrow> db_manager \<Rightarrow> database \<Rightarrow> int \<Rightarrow> string option \<Rightarrow> stat_row list \<times> db_manager" where
  "get_all_domains_stats env mgr db row_limit account_email =
     (if \<not> db_available mgr then ([], mgr)
      else
        (case get_cursor env mgr of
           (DummyCursor, mgr1) \<Rightarrow> ([], mgr1)
         | (RealCursor, mgr1) \<Rightarrow>
             (case (if tx_ok env then select_all_domains row_limit account_email db
                    else Inl OperationalError) of
                Inl e \<Rightarrow> ([], mgr1)
              | Inr rs \<Rightarrow> (rs, mgr1))))"

definition select_latest :: "string \<Rightarrow> string option \<Rightarrow> database \<Rightarrow> db_error + stat_row list" where
  "select_latest dn account_email db =
     (case domain_stats db of
        None \<Rightarrow> Inl UndefinedTable
      | Some t \<Rightarrow>
          limit_rows 1 (order_by_timestamp_desc
            (where_account account_email (filter (\<lambda>r. c_domain_name r = dn) (rows t)))))"

definition get_latest_domain_stats ::
  "conn_env \<Rightarrow> db_manager \<Rightarrow> database \<Rightarrow> string \<Rightarrow> string option \<Rightarrow> stat_row option \<times> db_manager" where
  "get_latest_domain_stats env mgr db dn account_email =
     (if \<not> db_available mgr then (None, mgr)
      else
        (case get_cursor env mgr of
           (DummyCursor, mgr1) \<Rightarrow> (None, mgr1)
         | (RealCursor, mgr1) \<Rightarrow>
             (case (if tx_ok env then select_latest dn account_email db
                    else Inl OperationalError) of
                Inl e \<Rightarrow> (None, mgr1)
              | Inr [] \<Rightarrow> (None, mgr1)
              | Inr (row # rest) \<Rightarrow> (Some row, mgr1))))"

subsection \<open>Sequences of upserts\<close>

text \<open>
  One call of \<open>save_domain_stats\<close> with everything it reads: the outside world at the
  call, \<open>date.today()\<close>, \<open>CURRENT_TIMESTAMP\<close>, the record and the account. \<open>save_all\<close>
  makes the calls of a list one after the other on the same manager and database.
\<close>

type_synonym save_call = "conn_env \<times> nat \<times> nat \<times> stats \<times> string"

fun save_all :: "json_module \<Rightarrow> save_call list \<Rightarrow> db_manager \<times> database \<Rightarrow> db_manager \<times> database" where
  "save_all js [] s = s"
| "save_all js ((env, current_date, now, st, account_email) # cs) (mgr, db) =
     (case save_domain_stats js env current_date now mgr db st account_email of
        (ok, mgr', db') \<Rightarrow> save_all js cs (mgr', db'))"

text \<open>
  The key a call writes, the row it proposes, and what makes a call well-formed: the
  store accepts a connection on one of \<open>possible_hosts\<close> and completes the transaction,
  the record has its domain and its timestamp, its \<open>delivered_count\<close> fits \<open>INTEGER\<close>
  and its \<open>complaint_rate\<close> fits \<open>REAL\<close>.
\<close>

definition call_key :: "save_call \<Rightarrow> string \<times> string \<times> nat" where
  "call_key c = (case c of (env, current_date, now, st, account_email) \<Rightarrow>
     (account_email, the (domain st), current_date))"

definition call_row :: "json_module \<Rightarrow> save_call \<Rightarrow> nat \<Rightarrow> stat_row" where
  "call_row js c = (case c of (env, current_date, now, st, account_email) \<Rightarrow>
     values_row js st account_email current_date now)"

definition fits_columns :: "json_module \<Rightarrow> stats \<Rightarrow> bool" where
  "fits_columns js st =
     ((case delivered_count st of None \<Rightarrow> True | Some x \<Rightarrow> int4_range x)
      \<and> (case complaint_rate st of None \<Rightarrow> True | Some x \<Rightarrow> to_real4 js x \<noteq> None))"

definition valid_call :: "json_module \<Rightarrow> save_call \<Rightarrow> bool" where
  "valid_call js c = (case c of (env, current_date, now, st, account_email) \<Rightarrow>
     list_ex (reach env) possible_hosts \<and> tx_ok env \<and> domain st \<noteq> None \<and> timestamp st \<noteq> None
     \<and> fits_columns js st)"

definition latest_call :: "save_call list \<Rightarrow> string \<times> string \<times> nat \<Rightarrow> save_call" where
  "latest_call cs k = last (filter (\<lambda>c. call_key c = k) cs)"

definition rows_with_key :: "stat_row table \<Rightarrow> string \<times> string \<times> nat \<Rightarrow> stat_row list" where
  "rows_with_key t k = filter (\<lambda>r. row_key r = k) (rows t)"

definition upsert_all :: "json_module \<Rightarrow> save_call list \<Rightarrow> stat_row table \<Rightarrow> stat_row table" where
  "upsert_all js cs t = fold (\<lambda>c. insert_on_conflict (call_row js c)) cs t"

text \<open>The tables as \<open>init_database\<close> leaves them, whatever they held before.\<close>

definition wiped :: "database \<Rightarrow> bool" where
  "wiped db =
     (domain_stats db = Some empty_table \<and> scraping_sessions db = Some empty_table
      \<and> scraping_accounts db = Some empty_table
      \<and> map_option (\<lambda>t. map k_api_key (rows t)) (api_keys db) = Some [''test-api-key-12345''])"



section \<open>PersistentAccountScraper: the cycle loop\<close>

text \<open>
  The \<open>while\<close> loop of \<open>start_persistent_scraping\<close>. Time is a clock in seconds that
  \<open>time.sleep(n)\<close> advances by \<open>n\<close>; a sleep cannot be interrupted. The flag
  \<open>self.is_running\<close> is true until another thread calls \<open>stop_scraping\<close>: \<open>stop\<close> is the
  time of that call, if there is one. \<open>run_hourly_scrape_enhanced\<close> is a parameter: each
  call returns a truthy value, returns a falsy value or raises, and takes some time.
  (In the file as it stands the method body is \<open>pass\<close>, so every call is falsy.)
\<close>

datatype scrape_result = Truthy | Falsy | Raises

record worker =
  cycle_count :: nat
  consecutive_failures :: nat
  clock :: nat

definition is_running_at :: "nat option \<Rightarrow> nat \<Rightarrow> bool" where
  "is_running_at stop t = (case stop of None \<Rightarrow> True | Some c \<Rightarrow> t < c)"

definition max_consecutive_failures :: nat where
  "max_consecutive_failures = 5"

definition retry_delay :: "nat \<Rightarrow> nat" where
  "retry_delay failures = min (300 * failures) 1800"

text \<open>
  The hourly wait: \<open>for i in range(wait_seconds // 300)\<close>, leaving the loop when the flag
  is off and sleeping 300 seconds otherwise. The first argument counts the iterations
  that are left.
\<close>

fun hourly_wait :: "nat \<Rightarrow> nat option \<Rightarrow> nat \<Rightarrow> nat" where
  "hourly_wait 0 stop t = t"
| "hourly_wait (Suc k) stop t = (if \<not> is_running_at stop t then t else hourly_wait k stop (t + 300))"

datatype flow = Continue | Break

text \<open>One pass through the body of the \<open>while\<close> loop, for a scrape of the given result and duration.\<close>

definition cycle :: "nat option \<Rightarrow> scrape_result \<times> nat \<Rightarrow> worker \<Rightarrow> worker \<times> flow" where
  "cycle stop scrape w =
     (case scrape of (result, duration) \<Rightarrow>
        let t = clock w + duration in
        (case result of
           Truthy \<Rightarrow>
             (w\<lparr>cycle_count := cycle_count w + 1, consecutive_failures := 0,
                clock := hourly_wait (3600 div 300) stop t\<rparr>, Continue)
         | Falsy \<Rightarrow>
             (let failures = consecutive_failures w + 1 in
              (w\<lparr>cycle_count := cycle_count w + 1, consecutive_failures := failures,
                 clock := t + retry_delay failures\<rparr>, Continue))
         | Raises \<Rightarrow>
             (let failures = consecutive_failures w + 1 in
              if failures \<ge> max_consecutive_failures
              then (w\<lparr>consecutive_failures := failures, clock := t\<rparr>, Break)
              else (w\<lparr>consecutive_failures := failures, clock := t + retry_delay failures\<rparr>,
                    Continue))))"

text \<open>
  The loop. It can run for ever, so the list of scrapes is also its fuel: the result is
  the worker when the loop is left, and None when the list ends with the loop still
  running.
\<close>

fun scraping_loop :: "nat option \<Rightarrow> (scrape_result \<times> nat) list \<Rightarrow> worker \<Rightarrow> worker option" where
  "scraping_loop stop scrapes w =
     (if is_running_at stop (clock w) \<and> consecutive_failures w < max_consecutive_failures
      then (case scrapes of
              [] \<Rightarrow> None
            | scrape # rest \<Rightarrow>
                (case cycle stop scrape w of
                   (w', Break) \<Rightarrow> Some w'
                 | (w', Continue) \<Rightarrow> scraping_loop stop rest w'))
      else Some w)"

definition new_worker :: "nat \<Rightarrow> worker" where
  "new_worker t = \<lparr>cycle_count = 0, consecutive_failures = 0, clock = t\<rparr>"

section \<open>SimultaneousPersistentManager: the monitoring loop\<close>

text \<open>
  The manager's state: its flag \<open>is_running\<close>, the lists \<open>scrapers\<close> (each scraper with
  its account and its own \<open>is_running\<close> flag) and \<open>threads\<close> (a thread is the number it
  got when it was created), a clock in seconds advanced by \<open>time.sleep\<close>, and the
  messages printed so far, of which the model keeps the ones below. Whether a thread is
  alive at a time is given from outside (\<open>alive\<close>), as is the list of enabled accounts
  that \<open>get_accounts\<close> returns.
\<close>

datatype message =
  AllThreadsDied
| EmergencyRestart
| ThreadDied nat
| RestartedThread nat
| StartedScraper nat

record supervisor =
  is_running :: bool
  scrapers :: "(string \<times> bool) list"
  threads :: "nat list"
  sup_clock :: nat
  next_thread :: nat
  printed :: "message list"


definition new_supervisor :: supervisor where
  "new_supervisor = \<lparr>is_running = True, scrapers = [], threads = [], sup_clock = 0,
     next_thread = 0, printed = []\<rparr>"











section \<open>Sample inputs\<close>

text \<open>Concrete values on which the theorems below are instantiated.\<close>

definition empty_stats :: stats where
  "empty_stats = \<lparr>domain = None, status = None, verified = None, added_date = None,
     timestamp = None, delivered_count = None, delivered_percentage = None,
     complaint_rate = None, complaint_percentage = None, complaint_trend = None,
     time_range = None, insights_data = None, screenshot_path = None, has_data = None\<rparr>"

definition stats_a :: stats where
  "stats_a = empty_stats\<lparr>domain := Some ''x.com'', timestamp := Some ''2024-05-01T10:00:00'',
     delivered_count := Some 100, complaint_rate := Some (1 / 10), verified := Some True\<rparr>"

definition stats_b :: stats where
  "stats_b = empty_stats\<lparr>domain := Some ''x.com'', timestamp := Some ''2024-05-01T11:00:00'',
     delivered_count := Some 200, verified := Some False\<rparr>"

definition stats_c :: stats where
  "stats_c = empty_stats\<lparr>domain := Some ''x.com'', timestamp := Some ''2024-05-01T12:00:00'',
     has_data := Some False\<rparr>"

definition doc_abc :: domain_data where
  "doc_abc = empty_doc\<lparr>accounts := Some
     [(''a@yahoo.com'', \<lparr>acc_last_updated = ''t1'', data = stats_a\<rparr>),
      (''b@yahoo.com'', \<lparr>acc_last_updated = ''t2'', data = stats_b\<rparr>),
      (''c@yahoo.com'', \<lparr>acc_last_updated = ''t3'', data = stats_c\<rparr>)]\<rparr>"


definition healthy_env :: conn_env where
  "healthy_env = \<lparr>reach = (\<lambda>host. host = ''postgres''), tx_ok = True\<rparr>"

definition unreachable_env :: conn_env where
  "unreachable_env = \<lparr>reach = (\<lambda>host. False), tx_ok = True\<rparr>"

definition json_stub :: json_module where
  "json_stub = \<lparr>dumps_value = (\<lambda>v. Some ''{...}''), dumps_stats = (\<lambda>st. Some ''{...}''),
     to_real4 = (\<lambda>x. Some x)\<rparr>"

definition db_one_row :: database where
  "db_one_row =
     \<lparr>domain_stats = Some \<lparr>next_id = 2, rows = [values_row json_stub stats_a ''a@yahoo.com'' 19844 7 1]\<rparr>,
      api_keys = Some \<lparr>next_id = 2, rows = [sample_api_key 1 0]\<rparr>,
      scraping_sessions = Some empty_table,
      scraping_accounts = Some empty_table\<rparr>"

definition stats_a2 :: stats where
  "stats_a2 = stats_a\<lparr>timestamp := Some ''2024-05-01T15:00:00'', delivered_count := Some 150\<rparr>"

definition call_1 :: save_call where
  "call_1 = (healthy_env, 19844, 7, stats_a, ''a@yahoo.com'')"

definition call_2 :: save_call where
  "call_2 = (healthy_env, 19844, 9, stats_a2, ''a@yahoo.com'')"




definition stats_no_timestamp :: stats where
  "stats_no_timestamp = stats_a2\<lparr>timestamp := None\<rparr>"

definition call_bad :: save_call where
  "call_bad = (healthy_env, 19844, 8, stats_no_timestamp, ''a@yahoo.com'')"

definition db_empty :: database where
  "db_empty =
     \<lparr>domain_stats = Some empty_table, api_keys = Some empty_table,
      scraping_sessions = Some empty_table, scraping_accounts = Some empty_table\<rparr>"



section \<open>Python dicts as association lists\<close>

lemma setitem_nonempty: "setitem k v d \<noteq> []"
  by (cases d) (auto split: if_splits)

lemma keys_setitem: "fst ` set (setitem k v d) = insert k (fst ` set d)"
proof (induction d)
  case Nil
  show ?case by simp
next
  case (Cons p d)
  show ?case by (cases p) (simp add: Cons.IH insert_commute)
qed

lemma distinct_setitem: "distinct (map fst d) \<Longrightarrow> distinct (map fst (setitem k v d))"
  by (induction d) (auto simp: keys_setitem)

lemma set_setitem:
  "distinct (map fst d) \<Longrightarrow> set (setitem k v d) = {p \<in> set d. fst p \<noteq> k} \<union> {(k, v)}"
proof (induction d)
  case Nil
  show ?case by simp
next
  case (Cons p d)
  obtain k' v' where p: "p = (k', v')" by (cases p)
  have nin: "k' \<notin> fst ` set d" and dd: "distinct (map fst d)" using Cons.prems by (auto simp: p)
  show ?case
  proof (cases "k' = k")
    case True
    have a: "{q \<in> set (p # d). fst q \<noteq> k} = set d" using nin True by (force simp: p)
    have b: "setitem k v (p # d) = (k, v) # d" using True by (simp add: p)
    show ?thesis unfolding a b by auto
  next
    case False
    then show ?thesis using Cons.IH [OF dd] by (auto simp: p)
  qed
qed


lemma setitem_fresh: "k \<notin> fst ` set d \<Longrightarrow> setitem k v d = d @ [(k, v)]"
  by (induction d) auto

lemma map_setitem:
  "map (\<lambda>p. (fst p, f (snd p))) (setitem k v d) = setitem k (f v) (map (\<lambda>p. (fst p, f (snd p))) d)"
  by (induction d) auto

lemma fold_setitem_distinct:
  "distinct (map fst d) \<Longrightarrow> distinct (map fst (fold (case_prod setitem) ps d))"
  by (induction ps arbitrary: d) (auto simp: distinct_setitem)

lemma fold_setitem_append:
  "distinct (map fst (d @ ps)) \<Longrightarrow> fold (case_prod setitem) ps d = d @ ps"
proof (induction ps arbitrary: d)
  case Nil
  show ?case by simp
next
  case (Cons p ps)
  have "fst p \<notin> fst ` set d" using Cons.prems by auto
  then have "case_prod setitem p d = d @ [p]" by (cases p) (simp add: setitem_fresh)
  moreover have "distinct (map fst ((d @ [p]) @ ps))" using Cons.prems by simp
  ultimately show ?case using Cons.IH [of "d @ [p]"] by simp
qed

lemma set_fold_setitem:
  "distinct (map fst d) \<Longrightarrow> distinct (map fst ps) \<Longrightarrow>
   set (fold (case_prod setitem) ps d) = {p \<in> set d. fst p \<notin> fst ` set ps} \<union> set ps"
proof (induction ps arbitrary: d)
  case Nil
  show ?case by simp
next
  case (Cons p ps)
  have d1: "distinct (map fst (case_prod setitem p d))" using Cons.prems(1) by (cases p) (simp add: distinct_setitem)
  have d2: "distinct (map fst ps)" and nin: "fst p \<notin> fst ` set ps" using Cons.prems(2) by auto
  have "set (fold (case_prod setitem) (p # ps) d) = {q \<in> set (case_prod setitem p d). fst q \<notin> fst ` set ps} \<union> set ps"
    using Cons.IH [OF d1 d2] by simp
  also have "set (case_prod setitem p d) = {q \<in> set d. fst q \<noteq> fst p} \<union> {p}"
    using Cons.prems(1) by (cases p) (simp add: set_setitem)
  finally show ?case using nin by auto
qed

lemma mset_fold_setitem_perm:
  assumes "distinct (map fst d)" and "distinct (map fst ps)" and "mset ps = mset qs"
  shows "mset (fold (case_prod setitem) ps d) = mset (fold (case_prod setitem) qs d)"
proof -
  have sq: "set ps = set qs" using assms(3) by (rule mset_eq_setD)
  have "mset (map fst ps) = mset (map fst qs)" using assms(3) by (metis mset_map)
  then have dq: "distinct (map fst qs)" using assms(2) by (metis mset_eq_imp_distinct_iff)
  have "set (fold (case_prod setitem) ps d) = set (fold (case_prod setitem) qs d)"
    using assms(1,2) dq by (simp add: set_fold_setitem sq)
  moreover have "distinct (fold (case_prod setitem) ps d)" "distinct (fold (case_prod setitem) qs d)"
    using fold_setitem_distinct [OF assms(1)] by (auto dest: distinct_map [THEN iffD1])
  ultimately show ?thesis by (simp add: set_eq_iff_mset_eq_distinct)
qed

section \<open>Aggregated metrics\<close>

lemma aggregate_loop_eq:
  "aggregate_loop accs (dc, cr, vc, hc) =
     (dc @ List.map_filter (\<lambda>p. delivered_count (data (snd p))) accs,
      cr @ List.map_filter (\<lambda>p. complaint_rate (data (snd p))) accs,
      vc + length (filter (\<lambda>p. verified (data (snd p)) = Some True) accs),
      hc + length (filter (\<lambda>p. has_data (data (snd p)) \<noteq> Some False) accs))"
proof (induction accs arbitrary: dc cr vc hc)
  case Nil
  show ?case by (simp add: List.map_filter_simps)
next
  case (Cons p accs)
  obtain k e where p: "p = (k, e)" by (cases p)
  show ?case
    unfolding p
    by (cases "delivered_count (data e)"; cases "complaint_rate (data e)"; cases "has_data (data e)")
       (simp_all add: Cons.IH List.map_filter_simps Let_def)
qed

lemma map_filter_the:
  "List.map_filter f xs = map (\<lambda>x. the (f x)) (filter (\<lambda>x. f x \<noteq> None) xs)"
  by (induction xs) (auto simp: List.map_filter_simps split: option.splits)

lemma of_int_sum_list_rat: "(of_int (sum_list xs) :: rat) = sum_list (map of_int xs)"
  by (induction xs) simp_all

lemma map_filter_comp: "List.map_filter f (map g xs) = List.map_filter (\<lambda>x. f (g x)) xs"
  by (induction xs) (simp_all add: List.map_filter_simps split: option.splits)

lemma aggregated_metrics_summary:
  assumes "accounts dd = Some accs" and "accs \<noteq> []"
  shows "aggregated_metrics (calculate_aggregated_metrics dd) = Some (summary (map (\<lambda>p. data (snd p)) accs))"
proof -
  have loop: "aggregate_loop accs ([], [], 0, 0) =
      (List.map_filter (\<lambda>p. delivered_count (data (snd p))) accs,
       List.map_filter (\<lambda>p. complaint_rate (data (snd p))) accs,
       length (filter (\<lambda>p. verified (data (snd p)) = Some True) accs),
       length (filter (\<lambda>p. has_data (data (snd p)) \<noteq> Some False) accs))"
    by (simp add: aggregate_loop_eq)
  show ?thesis
    using assms
    by (simp add: calculate_aggregated_metrics_def loop summary_def map_filter_comp filter_map comp_def)
qed

lemma mset_map_filter:
  "mset xs = mset ys \<Longrightarrow> mset (List.map_filter f xs) = mset (List.map_filter f ys)"
  by (simp add: map_filter_the mset_filter)

lemma summary_perm:
  assumes "mset ds = mset ds'"
  shows "summary ds = summary ds'"
proof -
  have len: "\<And>xs ys :: 'a list. mset xs = mset ys \<Longrightarrow> length xs = length ys"
    by (rule mset_eq_length)
  have sumi: "\<And>xs ys :: int list. mset xs = mset ys \<Longrightarrow> sum_list xs = sum_list ys"
    by (metis sum_mset_sum_list)
  have sumr: "\<And>xs ys :: rat list. mset xs = mset ys \<Longrightarrow> sum_list xs = sum_list ys"
    by (metis sum_mset_sum_list)
  have emp: "\<And>xs ys :: 'a list. mset xs = mset ys \<Longrightarrow> xs = [] \<longleftrightarrow> ys = []"
    by (metis mset_zero_iff)
  note d = mset_map_filter [OF assms, of delivered_count]
  note c = mset_map_filter [OF assms, of complaint_rate]
  have v: "length (filter (\<lambda>d. verified d = Some True) ds) = length (filter (\<lambda>d. verified d = Some True) ds')"
    by (rule len) (simp add: mset_filter assms)
  have h: "length (filter (\<lambda>d. has_data d \<noteq> Some False) ds) = length (filter (\<lambda>d. has_data d \<noteq> Some False) ds')"
    by (rule len) (simp add: mset_filter assms)
  show ?thesis
    unfolding summary_def
    using len [OF d] len [OF c] sumi [OF d] sumr [OF c] emp [OF d] emp [OF c] v h len [OF assms]
    by simp
qed

text \<open>
  Claim C2. For a document with at least one contribution, \<open>calculate_aggregated_metrics\<close>
  stores metrics in which \<open>average_delivered\<close> and \<open>average_complaint_rate\<close> are the
  arithmetic means over exactly the contributions that carry the metric (0 when none
  does), \<open>verified_accounts\<close> counts the contributions with \<open>verified\<close> true,
  \<open>accounts_with_data\<close> counts those whose \<open>has_data\<close> is true (an absent key reads as
  true, the default of the \<open>get\<close>), \<open>total_accounts\<close> is the number of contributions,
  and \<open>verified_accounts \<le> total_accounts\<close>.
\<close>

theorem calculate_aggregated_metrics_means_and_counts:
  assumes "accounts dd = Some accs" and "accs \<noteq> []"
  shows "\<exists>m. aggregated_metrics (calculate_aggregated_metrics dd) = Some m
    \<and> average_delivered m =
        (if with_delivered accs = [] then 0
         else mean (map (\<lambda>p. of_int (the (delivered_count (data (snd p))))) (with_delivered accs)))
    \<and> average_complaint_rate m =
        (if with_complaint accs = [] then 0
         else mean (map (\<lambda>p. the (complaint_rate (data (snd p)))) (with_complaint accs)))
    \<and> verified_accounts m = length (filter (\<lambda>p. verified (data (snd p)) = Some True) accs)
    \<and> accounts_with_data m = length (filter (\<lambda>p. has_data (data (snd p)) \<noteq> Some False) accs)
    \<and> total_accounts m = length accs
    \<and> verified_accounts m \<le> total_accounts m"
proof -
  let ?dc = "List.map_filter (\<lambda>p. delivered_count (data (snd p))) accs"
  let ?cr = "List.map_filter (\<lambda>p. complaint_rate (data (snd p))) accs"
  have dc: "?dc = map (\<lambda>p. the (delivered_count (data (snd p)))) (with_delivered accs)"
    by (simp add: map_filter_the with_delivered_def)
  have cr: "?cr = map (\<lambda>p. the (complaint_rate (data (snd p)))) (with_complaint accs)"
    by (simp add: map_filter_the with_complaint_def)
  have avg_d: "(of_int (sum_list ?dc) :: rat) / of_nat (length ?dc) =
      mean (map (\<lambda>p. of_int (the (delivered_count (data (snd p))))) (with_delivered accs))"
    by (simp add: dc mean_def of_int_sum_list_rat comp_def)
  have avg_c: "sum_list ?cr / of_nat (length ?cr) =
      mean (map (\<lambda>p. the (complaint_rate (data (snd p)))) (with_complaint accs))"
    by (simp add: cr mean_def)
  have e_d: "?dc = [] \<longleftrightarrow> with_delivered accs = []" by (simp add: dc)
  have e_c: "?cr = [] \<longleftrightarrow> with_complaint accs = []" by (simp add: cr)
  have loop: "aggregate_loop accs ([], [], 0, 0) =
      (?dc, ?cr, length (filter (\<lambda>p. verified (data (snd p)) = Some True) accs),
       length (filter (\<lambda>p. has_data (data (snd p)) \<noteq> Some False) accs))"
    by (simp add: aggregate_loop_eq)
  show ?thesis
    using assms
    by (simp add: calculate_aggregated_metrics_def loop avg_d avg_c e_d e_c)
qed

theorem calculate_aggregated_metrics_means_and_counts_witness:
  "accounts doc_abc \<noteq> Some []
   \<and> (\<exists>m. aggregated_metrics (calculate_aggregated_metrics doc_abc) = Some m
        \<and> average_delivered m = 150 \<and> average_complaint_rate m = 1 / 10
        \<and> verified_accounts m = 1 \<and> accounts_with_data m = 2 \<and> total_accounts m = 3)"
proof -
  let ?a = "(''a@yahoo.com'', \<lparr>acc_last_updated = ''t1'', data = stats_a\<rparr>)"
  let ?b = "(''b@yahoo.com'', \<lparr>acc_last_updated = ''t2'', data = stats_b\<rparr>)"
  let ?c = "(''c@yahoo.com'', \<lparr>acc_last_updated = ''t3'', data = stats_c\<rparr>)"
  note defs = stats_a_def stats_b_def stats_c_def empty_stats_def
  have h1: "accounts doc_abc = Some [?a, ?b, ?c]" by (simp add: doc_abc_def)
  have h2: "[?a, ?b, ?c] \<noteq> []" by simp
  have wd: "with_delivered [?a, ?b, ?c] = [?a, ?b]"
    by (simp add: with_delivered_def defs)
  have wc: "with_complaint [?a, ?b, ?c] = [?a]"
    by (simp add: with_complaint_def defs del: not_None_eq)
  from calculate_aggregated_metrics_means_and_counts [OF h1 h2, unfolded wd wc]
  obtain m where m: "aggregated_metrics (calculate_aggregated_metrics doc_abc) = Some m"
    and ad: "average_delivered m = mean (map (\<lambda>p. of_int (the (delivered_count (data (snd p))))) [?a, ?b])"
    and ac: "average_complaint_rate m = mean (map (\<lambda>p. the (complaint_rate (data (snd p)))) [?a])"
    and va: "verified_accounts m = length (filter (\<lambda>p. verified (data (snd p)) = Some True) [?a, ?b, ?c])"
    and wa: "accounts_with_data m = length (filter (\<lambda>p. has_data (data (snd p)) \<noteq> Some False) [?a, ?b, ?c])"
    and ta: "total_accounts m = length [?a, ?b, ?c]"
    by auto
  have "average_delivered m = 150" unfolding ad by (simp add: mean_def defs)
  moreover have "average_complaint_rate m = 1 / 10" unfolding ac by (simp add: mean_def defs)
  moreover have "verified_accounts m = 1" unfolding va by (simp add: defs)
  moreover have "accounts_with_data m = 2" unfolding wa by (simp add: defs)
  moreover have "total_accounts m = 3" unfolding ta by simp
  ultimately show ?thesis using m h1 by simp
qed

section \<open>Merging contributions\<close>

lemma dict_of_pairs_distinct: "distinct (map fst (dict_of_pairs ps))"
  unfolding dict_of_pairs_def by (rule fold_setitem_distinct) simp

lemma dict_of_pairs_id: "distinct (map fst d) \<Longrightarrow> dict_of_pairs d = d"
  unfolding dict_of_pairs_def using fold_setitem_append [of "[]" d] by simp

lemma read_existing_distinct: "distinct (map fst (accounts_or_empty (read_existing fs dn)))"
  by (auto simp: read_existing_def accounts_or_empty_def empty_doc_def json_load_def
        dict_of_pairs_distinct split: option.splits json_file.splits)

lemma accounts_merge_contribution:
  "accounts (merge_contribution dn st a t1 t2 D) =
     Some (setitem a \<lparr>acc_last_updated = t1, data = st\<rparr> (accounts_or_empty D))"
  by (auto simp: merge_contribution_def calculate_aggregated_metrics_def accounts_or_empty_def
        Let_def setitem_nonempty split: option.splits prod.splits)

lemma metrics_merge_contribution:
  "aggregated_metrics (merge_contribution dn st a t1 t2 D) =
     Some (summary (map (\<lambda>p. data (snd p))
       (setitem a \<lparr>acc_last_updated = t1, data = st\<rparr> (accounts_or_empty D))))"
proof -
  let ?accs = "setitem a \<lparr>acc_last_updated = t1, data = st\<rparr> (accounts_or_empty D)"
  let ?e6 = "D\<lparr>doc_domain := (if doc_domain D = None then Some dn else doc_domain D),
     accounts := Some ?accs, doc_last_updated := Some t2, latest_data := Some st,
     doc_total_accounts := Some (length ?accs)\<rparr>"
  have m: "merge_contribution dn st a t1 t2 D = calculate_aggregated_metrics ?e6"
    by (cases "accounts D") (auto simp: merge_contribution_def accounts_or_empty_def Let_def)
  show ?thesis
    unfolding m by (rule aggregated_metrics_summary) (simp_all add: setitem_nonempty)
qed

lemma json_load_merge_contribution:
  assumes "distinct (map fst (accounts_or_empty D))"
  shows "json_load (merge_contribution dn st a t1 t2 D) = merge_contribution dn st a t1 t2 D"
  using assms
  by (simp add: json_load_def accounts_merge_contribution dict_of_pairs_id distinct_setitem)

lemma stored_doc_save:
  "stored_doc (fst (save_domain_json fs dn st a t1 t2)) dn =
     Some (merge_contribution dn st a t1 t2 (read_existing fs dn))"
  by (simp add: stored_doc_def save_domain_json_def write_back_def)

lemma read_existing_save:
  "read_existing (fst (save_domain_json fs dn st a t1 t2)) dn =
     merge_contribution dn st a t1 t2 (read_existing fs dn)"
proof -
  let ?M = "merge_contribution dn st a t1 t2 (read_existing fs dn)"
  have "read_existing (fs(get_json_path dn \<mapsto> Json ?M)) dn = json_load ?M"
    by (simp add: read_existing_def)
  then show ?thesis
    by (simp add: save_domain_json_def write_back_def json_load_merge_contribution
          read_existing_distinct)
qed

lemma accounts_or_empty_merge_contribution:
  "accounts_or_empty (merge_contribution dn st a t1 t2 D) =
     setitem a \<lparr>acc_last_updated = t1, data = st\<rparr> (accounts_or_empty D)"
  by (simp add: accounts_or_empty_def [of "merge_contribution _ _ _ _ _ _"] accounts_merge_contribution)

lemma merge_all_Cons:
  "merge_all fs dn ((a, st, t1, t2) # cs) = merge_all (fst (save_domain_json fs dn st a t1 t2)) dn cs"
  by (simp add: merge_all_def)

lemma accounts_merge_all:
  "accounts_or_empty (read_existing (merge_all fs dn cs) dn) =
     fold (case_prod setitem) (map entry cs) (accounts_or_empty (read_existing fs dn))"
proof (induction cs arbitrary: fs)
  case Nil
  show ?case by (simp add: merge_all_def)
next
  case (Cons c cs)
  obtain a st t1 t2 where c: "c = (a, st, t1, t2)" by (cases c)
  have e: "entry c = (a, \<lparr>acc_last_updated = t1, data = st\<rparr>)" by (simp add: c entry_def)
  show ?case
    unfolding c merge_all_Cons Cons.IH
    by (simp add: read_existing_save accounts_or_empty_merge_contribution e [unfolded c])
qed

lemma stored_metrics_merge_all:
  "cs \<noteq> [] \<Longrightarrow> stored_metrics (merge_all fs dn cs) dn =
     Some (summary (map (\<lambda>p. data (snd p)) (accounts_or_empty (read_existing (merge_all fs dn cs) dn))))"
proof (induction cs arbitrary: fs)
  case Nil
  then show ?case by simp
next
  case (Cons c cs)
  obtain a st t1 t2 where c: "c = (a, st, t1, t2)" by (cases c)
  show ?case
  proof (cases "cs = []")
    case True
    show ?thesis
      unfolding c True
      by (simp add: merge_all_def stored_metrics_def stored_doc_save read_existing_save
            metrics_merge_contribution accounts_or_empty_merge_contribution)
  next
    case False
    show ?thesis unfolding c merge_all_Cons by (rule Cons.IH [OF False])
  qed
qed

lemma data_fold_setitem:
  "map (\<lambda>p. (fst p, data (snd p))) (fold (case_prod setitem) (map entry cs) d) =
     fold (case_prod setitem) (map contribution cs) (map (\<lambda>p. (fst p, data (snd p))) d)"
proof (induction cs arbitrary: d)
  case Nil
  show ?case by simp
next
  case (Cons c cs)
  obtain a st t1 t2 where c: "c = (a, st, t1, t2)" by (cases c)
  have e: "entry c = (a, \<lparr>acc_last_updated = t1, data = st\<rparr>)" by (simp add: c entry_def)
  have k: "contribution c = (a, st)" by (simp add: c contribution_def)
  show ?case
    by (simp add: Cons.IH e k map_setitem [of data])
qed

text \<open>
  With the complaint rates taken as exact numbers, merging the contributions of distinct
  accounts into one domain's document gives the same stored \<open>aggregated_metrics\<close>
  whatever the arrival order. The program adds Python floats, rounding after each
  addition and in the order of the dict, which is the arrival order; that rounding is not
  part of this model, so the lemma says nothing about the last digits of
  \<open>average_complaint_rate\<close> in the program.
\<close>

lemma merge_order_independent_exact:
  assumes "distinct (map fst cs)"
    and "mset (map contribution cs) = mset (map contribution cs')"
  shows "stored_metrics (merge_all fs dn cs) dn = stored_metrics (merge_all fs dn cs') dn"
proof (cases "cs = []")
  case True
  then have "cs' = []" using assms(2) by simp
  then show ?thesis using True by simp
next
  case False
  then have ne': "cs' \<noteq> []" using assms(2) by auto
  let ?D = "accounts_or_empty (read_existing fs dn)"
  let ?G = "map (\<lambda>p. (fst p, data (snd p))) ?D"
  have dG: "distinct (map fst ?G)" using read_existing_distinct [of fs dn] by (simp add: comp_def)
  have fc: "map fst (map contribution cs) = map fst cs"
    by (simp add: contribution_def comp_def split_def)
  have dc: "distinct (map fst (map contribution cs))" using assms(1) by (simp only: fc)
  have perm: "mset (fold (case_prod setitem) (map contribution cs) ?G) =
      mset (fold (case_prod setitem) (map contribution cs') ?G)"
    by (rule mset_fold_setitem_perm [OF dG dc assms(2)])
  have m1: "mset (map snd (fold (case_prod setitem) (map contribution cs) ?G)) =
      mset (map snd (fold (case_prod setitem) (map contribution cs') ?G))"
    using perm by (simp only: mset_map)
  have data_of: "\<And>xs :: (string \<times> account_data) list.
      map (\<lambda>p. data (snd p)) xs = map snd (map (\<lambda>p. (fst p, data (snd p))) xs)"
    by simp
  have m2: "mset (map (\<lambda>p. data (snd p)) (fold (case_prod setitem) (map entry cs) ?D)) =
      mset (map (\<lambda>p. data (snd p)) (fold (case_prod setitem) (map entry cs') ?D))"
    by (simp only: data_of data_fold_setitem m1)
  have "stored_metrics (merge_all fs dn cs) dn =
      Some (summary (map (\<lambda>p. data (snd p)) (fold (case_prod setitem) (map entry cs) ?D)))"
    by (simp only: stored_metrics_merge_all [OF False] accounts_merge_all)
  moreover have "stored_metrics (merge_all fs dn cs') dn =
      Some (summary (map (\<lambda>p. data (snd p)) (fold (case_prod setitem) (map entry cs') ?D)))"
    by (simp only: stored_metrics_merge_all [OF ne'] accounts_merge_all)
  ultimately show ?thesis by (simp only: summary_perm [OF m2])
qed

section \<open>Overlapping merges\<close>







section \<open>Initialisation and the unreachable store\<close>

declare init_database_from.simps [simp del]
declare main_init_from.simps [simp del]

lemma wiped_init_statements: "wiped (init_statements now db)"
  by (simp add: wiped_def init_statements_def empty_table_def sample_api_key_def)

lemma get_cursor_Dummy: "get_cursor env mgr = (DummyCursor, mgr1) \<Longrightarrow> \<not> db_available mgr1"
  by (auto simp: get_cursor_def get_connection_def split: if_splits option.splits prod.splits)

lemma init_database_from_available:
  "attempt < 3 \<Longrightarrow> init_database_from attempt envs now mgr db = (res, mgr', db') \<Longrightarrow>
   db_available mgr' \<Longrightarrow> \<exists>k. db' = init_statements (now k) db"
proof (induction attempt envs now mgr db rule: init_database_from.induct)
  case (1 attempt envs now mgr db)
  obtain cur mgr1 where gc: "get_cursor (envs attempt) mgr = (cur, mgr1)"
    by (cases "get_cursor (envs attempt) mgr")
  show ?case
  proof (cases cur)
    case DummyCursor
    then show ?thesis
      using "1.prems" gc get_cursor_Dummy [of "envs attempt" mgr mgr1]
      by (simp add: init_database_from.simps [of attempt])
  next
    case RealCursor
    show ?thesis
    proof (cases "db_available mgr1 \<and> \<not> tx_ok (envs attempt) \<and> attempt < 2")
      case True
      then have "init_database_from (attempt + 1) envs now mgr1 db = (res, mgr', db')"
        using "1.prems" gc RealCursor by (simp add: init_database_from.simps [of attempt])
      moreover have "attempt + 1 < 3" using True by simp
      ultimately show ?thesis
        using "1.IH" [of cur mgr1] gc RealCursor True "1.prems"(3) by simp
    next
      case False
      then show ?thesis
        using "1.prems" gc RealCursor
        by (auto simp: init_database_from.simps [of attempt] split: if_splits)
    qed
  qed
qed

lemma init_database_available:
  "init_database envs now mgr db = (res, mgr', db') \<Longrightarrow> db_available mgr' \<Longrightarrow>
   \<exists>k. db' = init_statements (now k) db"
  unfolding init_database_def by (rule init_database_from_available) simp_all

lemma main_init_from_available:
  "db_attempt < 5 \<Longrightarrow> main_init_from db_attempt envs now mgr db = (ok, mgr', db') \<Longrightarrow>
   db_available mgr' \<Longrightarrow> \<exists>n d. db' = init_statements n d"
proof (induction db_attempt envs now mgr db rule: main_init_from.induct)
  case (1 db_attempt envs now mgr db)
  obtain res mgr1 db1 where i: "init_database (envs db_attempt) (now db_attempt) mgr db = (res, mgr1, db1)"
    by (cases "init_database (envs db_attempt) (now db_attempt) mgr db")
  show ?case
  proof (cases res)
    case (Inr u)
    then have "mgr' = mgr1" "db' = db1"
      using "1.prems" i by (simp_all add: main_init_from.simps [of db_attempt])
    then show ?thesis
      using init_database_available [OF i] "1.prems"(3) by blast
  next
    case (Inl e)
    show ?thesis
    proof (cases "db_attempt + 1 < 5")
      case True
      then have "main_init_from (db_attempt + 1) envs now mgr1 db1 = (ok, mgr', db')"
        using "1.prems" i Inl by (simp add: main_init_from.simps [of db_attempt])
      then show ?thesis
        using "1.IH" [OF _ i [symmetric] Inl refl True True] "1.prems"(1,3)
        by simp
    next
      case False
      then show ?thesis
        using "1.prems" i Inl by (auto simp: main_init_from.simps [of db_attempt])
    qed
  qed
qed

text \<open>
  Claim C10 (as amended). \<open>init_database\<close> drops \<open>domain_stats\<close>, \<open>scraping_sessions\<close>,
  \<open>scraping_accounts\<close> and \<open>api_keys\<close> before it recreates them, with no condition on
  what they hold, but only once it has a connection. Whenever \<open>init_database\<close>, or the
  initialisation loop of \<open>main\<close> that calls it, ends with \<open>db_available\<close> still true
  (the store was reachable and one attempt committed), the three data tables are empty
  and \<open>api_keys\<close> holds only the sample key, whatever rows the database held before the
  start.
\<close>

theorem init_database_erases_tables:
  "(db_available (fst (snd (init_database envs now mgr db)))
      \<longrightarrow> wiped (snd (snd (init_database envs now mgr db))))
   \<and> (db_available (fst (snd (main_init envs2 now2 db2)))
      \<longrightarrow> wiped (snd (snd (main_init envs2 now2 db2))))"
proof (intro conjI impI)
  assume a: "db_available (fst (snd (init_database envs now mgr db)))"
  obtain res mgr' db' where r: "init_database envs now mgr db = (res, mgr', db')"
    by (cases "init_database envs now mgr db")
  from init_database_available [OF r] a r show "wiped (snd (snd (init_database envs now mgr db)))"
    by (auto simp: wiped_init_statements)
next
  assume a: "db_available (fst (snd (main_init envs2 now2 db2)))"
  obtain ok mgr' db' where r: "main_init_from 0 envs2 now2 new_manager db2 = (ok, mgr', db')"
    by (cases "main_init_from 0 envs2 now2 new_manager db2")
  from main_init_from_available [OF _ r] a r show "wiped (snd (snd (main_init envs2 now2 db2)))"
    by (auto simp: wiped_init_statements main_init_def)
qed

lemma init_database_healthy:
  "init_database (\<lambda>a. healthy_env) (\<lambda>a. 0) new_manager db =
     (Inr (), new_manager\<lparr>config_host := ''postgres''\<rparr>, init_statements 0 db)"
  by (simp add: init_database_def init_database_from.simps [of 0] get_cursor_def get_connection_def
        possible_hosts_def healthy_env_def new_manager_def)

theorem init_database_erases_tables_witness:
  "db_available (fst (snd (init_database (\<lambda>a. healthy_env) (\<lambda>a. 0) new_manager db_one_row)))
   \<and> wiped (snd (snd (init_database (\<lambda>a. healthy_env) (\<lambda>a. 0) new_manager db_one_row)))
   \<and> db_available (fst (snd (main_init (\<lambda>k a. healthy_env) (\<lambda>k a. 0) db_one_row)))
   \<and> wiped (snd (snd (main_init (\<lambda>k a. healthy_env) (\<lambda>k a. 0) db_one_row)))
   \<and> \<not> wiped db_one_row"
proof -
  have h1: "db_available (fst (snd (init_database (\<lambda>a. healthy_env) (\<lambda>a. 0) new_manager db_one_row)))"
    unfolding init_database_healthy by (simp add: new_manager_def)
  have h2: "db_available (fst (snd (main_init (\<lambda>k a. healthy_env) (\<lambda>k a. 0) db_one_row)))"
    unfolding main_init_def main_init_from.simps [of 0] init_database_healthy
    by (simp add: new_manager_def)
  have h3: "\<not> wiped db_one_row"
    by (simp add: wiped_def db_one_row_def empty_table_def)
  show ?thesis
    using h1 h2 h3
      init_database_erases_tables [of "\<lambda>a. healthy_env" "\<lambda>a. 0" new_manager db_one_row
        "\<lambda>k a. healthy_env" "\<lambda>k a. 0" db_one_row]
    by simp
qed

text \<open>
  The claim as stated, for every process start, fails: when no host accepts a connection
  \<open>init_database\<close> returns before any \<open>DROP\<close>, \<open>main\<close> still sets
  \<open>db_initialized\<close>, and the rows stored before the start are all still there (the
  process then runs with \<open>db_available\<close> false).
\<close>

theorem init_database_unreachable_counterexample:
  "main_init (\<lambda>k a. unreachable_env) (\<lambda>k a. 0) db_one_row
     = (True, new_manager\<lparr>db_available := False\<rparr>, db_one_row)
   \<and> map c_domain_name (rows (the (domain_stats db_one_row))) = [''x.com'']"
  by (simp add: main_init_def main_init_from.simps [of 0] init_database_def
        init_database_from.simps [of 0] get_cursor_def get_connection_def possible_hosts_def
        unreachable_env_def new_manager_def db_one_row_def values_row_def stats_a_def empty_stats_def)

text \<open>
  Claim C9, evaluated where it fails. A fresh manager (\<open>db_available\<close> true) meets a store
  that accepts no connection. No operation raises; \<open>get_latest_domain_stats\<close> gives None
  and \<open>get_all_domains_stats\<close> gives the empty list, but \<open>save_domain_stats\<close> runs its
  body on the dummy cursor and returns True, although nothing was written. (From the next
  call on \<open>db_available\<close> is false and the guard at the top returns False.)
\<close>

theorem unreachable_store_results:
  "save_domain_stats js unreachable_env current_date now new_manager db st account_email
     = (True, new_manager\<lparr>db_available := False\<rparr>, db)
   \<and> get_latest_domain_stats unreachable_env new_manager db dn account_filter
     = (None, new_manager\<lparr>db_available := False\<rparr>)
   \<and> get_all_domains_stats unreachable_env new_manager db row_limit account_filter
     = ([], new_manager\<lparr>db_available := False\<rparr>)"
  by (simp add: save_domain_stats_def get_latest_domain_stats_def get_all_domains_stats_def
        get_cursor_def get_connection_def possible_hosts_def unreachable_env_def new_manager_def)

section \<open>Upserts\<close>

lemma find_list_ex: "list_ex P xs \<Longrightarrow> \<exists>x. List.find P xs = Some x"
  by (induction xs) auto

lemma row_key_values_row:
  "row_key (values_row js st a d n rid) = (a, the (domain st), d)"
  by (simp add: row_key_def values_row_def)

lemma row_key_call_row: "row_key (call_row js c rid) = call_key c"
  by (cases c) (simp add: call_row_def call_key_def row_key_values_row)

lemma row_key_do_update: "row_key (do_update new r) = row_key r"
  by (simp add: row_key_def do_update_def)

lemma do_update_values_row:
  assumes "row_key r = row_key (values_row js st a d n rid)"
  shows "do_update (values_row js st a d n rid) r = values_row js st a d n (c_id r)"
  using assms by (cases r) (simp add: do_update_def values_row_def row_key_def)

lemma do_update_call_row:
  "row_key r = call_key c \<Longrightarrow> do_update (call_row js c rid) r = call_row js c (c_id r)"
  by (cases c) (simp add: call_row_def call_key_def do_update_values_row row_key_values_row)

lemma filter_key_unique:
  "distinct (map f xs) \<Longrightarrow> x \<in> set xs \<Longrightarrow> filter (\<lambda>y. f y = f x) xs = [x]"
proof (induction xs)
  case Nil
  then show ?case by simp
next
  case (Cons y ys)
  show ?case
  proof (cases "y = x")
    case True
    have "f x \<notin> f ` set ys" using Cons.prems(1) True by simp
    then have "\<forall>z\<in>set ys. f z \<noteq> f x" by (metis imageI)
    then have "filter (\<lambda>z. f z = f x) ys = []"
      by (simp add: filter_empty_conv)
    then show ?thesis using True by simp
  next
    case False
    then have "x \<in> set ys" using Cons.prems(2) by simp
    moreover have "f y \<noteq> f x" using Cons.prems(1) \<open>x \<in> set ys\<close> by auto
    ultimately show ?thesis using Cons by simp
  qed
qed

lemma filter_map_other:
  assumes "k \<noteq> k0" and "\<And>r. f (g r) = f r"
  shows "filter (\<lambda>r. f r = k) (map (\<lambda>r. if f r = k0 then g r else r) xs) = filter (\<lambda>r. f r = k) xs"
  using assms by (induction xs) auto

lemma filter_map_same:
  assumes "\<And>r. f (g r) = f r"
  shows "filter (\<lambda>r. f r = k0) (map (\<lambda>r. if f r = k0 then g r else r) xs)
     = map g (filter (\<lambda>r. f r = k0) xs)"
  using assms by (induction xs) auto

lemma rows_insert_other:
  assumes "k \<noteq> call_key c"
  shows "rows_with_key (insert_on_conflict (call_row js c) t) k = rows_with_key t k"
proof -
  let ?new = "call_row js c (next_id t)"
  have k: "row_key ?new = call_key c" by (rule row_key_call_row)
  have "filter (\<lambda>r. row_key r = k) (map (\<lambda>r. if row_key r = call_key c then do_update ?new r else r) (rows t))
      = filter (\<lambda>r. row_key r = k) (rows t)"
    using assms by (intro filter_map_other) (simp_all add: row_key_do_update)
  then show ?thesis
    using assms by (simp add: rows_with_key_def insert_on_conflict_def Let_def k)
qed

lemma distinct_insert_on_conflict:
  assumes "distinct (map row_key (rows t))"
  shows "distinct (map row_key (rows (insert_on_conflict (call_row js c) t)))"
proof -
  let ?new = "call_row js c (next_id t)"
  have k: "row_key ?new = call_key c" by (rule row_key_call_row)
  have same: "map row_key (map (\<lambda>r. if row_key r = call_key c then do_update ?new r else r) (rows t))
      = map row_key (rows t)"
    by (simp add: row_key_do_update)
  show ?thesis
  proof (cases "list_ex (\<lambda>r. row_key r = call_key c) (rows t)")
    case True
    then have "rows (insert_on_conflict (call_row js c) t)
        = map (\<lambda>r. if row_key r = call_key c then do_update ?new r else r) (rows t)"
      by (simp add: insert_on_conflict_def Let_def k)
    then show ?thesis
      using assms by (simp only: same)
  next
    case False
    then have "call_key c \<notin> row_key ` set (rows t)"
      by (auto simp: list_ex_iff)
    then show ?thesis
      using assms False by (simp add: insert_on_conflict_def Let_def k)
  qed
qed

lemma rows_insert_same:
  assumes "distinct (map row_key (rows t))"
  shows "\<exists>rid. rows_with_key (insert_on_conflict (call_row js c) t) (call_key c) = [call_row js c rid]"
proof -
  let ?new = "call_row js c (next_id t)"
  have k: "row_key ?new = call_key c" by (rule row_key_call_row)
  show ?thesis
  proof (cases "list_ex (\<lambda>r. row_key r = call_key c) (rows t)")
    case True
    then obtain r0 where r0: "r0 \<in> set (rows t)" "row_key r0 = call_key c"
      by (auto simp: list_ex_iff)
    have one: "filter (\<lambda>r. row_key r = call_key c) (rows t) = [r0]"
      using filter_key_unique [OF assms r0(1)] r0(2) by simp
    have "rows_with_key (insert_on_conflict (call_row js c) t) (call_key c)
        = map (do_update ?new) (filter (\<lambda>r. row_key r = call_key c) (rows t))"
      using True
      by (simp add: rows_with_key_def insert_on_conflict_def Let_def k
            filter_map_same [where f = row_key and g = "do_update ?new"] row_key_do_update)
    also have "\<dots> = [call_row js c (c_id r0)]"
      by (simp add: one do_update_call_row r0(2))
    finally show ?thesis by blast
  next
    case False
    then have "filter (\<lambda>r. row_key r = call_key c) (rows t) = []"
      by (auto simp: list_ex_iff filter_empty_conv)
    then have "rows_with_key (insert_on_conflict (call_row js c) t) (call_key c) = [?new]"
      using False by (simp add: rows_with_key_def insert_on_conflict_def Let_def k)
    then show ?thesis by blast
  qed
qed

lemma upsert_all_snoc:
  "upsert_all js (cs @ [c]) t = insert_on_conflict (call_row js c) (upsert_all js cs t)"
  by (simp add: upsert_all_def)

lemma distinct_upsert_all:
  "distinct (map row_key (rows t)) \<Longrightarrow> distinct (map row_key (rows (upsert_all js cs t)))"
  by (induction cs rule: rev_induct) (simp_all add: upsert_all_snoc distinct_insert_on_conflict, simp add: upsert_all_def)

lemma latest_call_snoc:
  "latest_call (cs @ [c]) k = (if call_key c = k then c else latest_call cs k)"
  by (simp add: latest_call_def)

lemma upsert_all_latest:
  assumes "distinct (map row_key (rows t))" and "c \<in> set cs"
  shows "\<exists>rid. rows_with_key (upsert_all js cs t) (call_key c)
           = [call_row js (latest_call cs (call_key c)) rid]"
  using assms(2)
proof (induction cs rule: rev_induct)
  case Nil
  then show ?case by simp
next
  case (snoc x xs)
  have d: "distinct (map row_key (rows (upsert_all js xs t)))"
    by (rule distinct_upsert_all [OF assms(1)])
  show ?case
  proof (cases "call_key x = call_key c")
    case True
    show ?thesis
      using rows_insert_same [OF d, of js x] True
      by (simp add: upsert_all_snoc latest_call_snoc)
  next
    case False
    then have "c \<in> set xs" using snoc.prems by auto
    then show ?thesis
      using snoc.IH False
      by (simp add: upsert_all_snoc latest_call_snoc rows_insert_other)
  qed
qed

lemma save_valid:
  assumes "db_available mgr" and "valid_call js (env, d, n, st, a)" and "domain_stats db = Some t"
  shows "\<exists>mgr'. db_available mgr' \<and>
     save_domain_stats js env d n mgr db st a =
       (True, mgr', db\<lparr>domain_stats := Some (insert_on_conflict (call_row js (env, d, n, st, a)) t)\<rparr>)"
proof -
  from assms(2) obtain h where h: "List.find (reach env) possible_hosts = Some h"
    using find_list_ex [of "reach env" possible_hosts] by (auto simp: valid_call_def)
  have fit: "\<not> ((case delivered_count st of None \<Rightarrow> False | Some x \<Rightarrow> \<not> int4_range x)
      \<or> (case complaint_rate st of None \<Rightarrow> False | Some x \<Rightarrow> to_real4 js x = None))"
    using assms(2) by (auto simp: valid_call_def fits_columns_def split: option.splits)
  have gc: "get_cursor env mgr = (RealCursor, mgr\<lparr>config_host := h\<rparr>)"
    using assms(1) h by (simp add: get_cursor_def get_connection_def)
  show ?thesis
    using assms gc fit
    by (auto simp: save_domain_stats_def valid_call_def execute_upsert_def call_row_def)
qed

lemma save_all_valid:
  assumes "db_available mgr" and "\<forall>c\<in>set cs. valid_call js c" and "domain_stats db = Some t"
  shows "\<exists>mgr'. db_available mgr' \<and>
     save_all js cs (mgr, db) = (mgr', db\<lparr>domain_stats := Some (upsert_all js cs t)\<rparr>)"
  using assms
proof (induction cs arbitrary: mgr db t)
  case Nil
  then show ?case by (simp add: upsert_all_def)
next
  case (Cons c cs)
  obtain env d n st a where c: "c = (env, d, n, st, a)" by (cases c)
  from Cons.prems have v: "valid_call js (env, d, n, st, a)" by (simp add: c)
  from save_valid [OF Cons.prems(1) v Cons.prems(3)]
  obtain mgr1 where m1: "db_available mgr1"
    and s1: "save_domain_stats js env d n mgr db st a =
       (True, mgr1, db\<lparr>domain_stats := Some (insert_on_conflict (call_row js c) t)\<rparr>)"
    by (auto simp: c)
  let ?db1 = "db\<lparr>domain_stats := Some (insert_on_conflict (call_row js c) t)\<rparr>"
  have "\<forall>c\<in>set cs. valid_call js c" using Cons.prems(2) by simp
  from Cons.IH [OF m1 this, of ?db1 "insert_on_conflict (call_row js c) t"]
  obtain mgr' where "db_available mgr'"
    and "save_all js cs (mgr1, ?db1) = (mgr', ?db1\<lparr>domain_stats := Some (upsert_all js cs (insert_on_conflict (call_row js c) t))\<rparr>)"
    by auto
  then show ?case
    by (auto simp: c s1 [unfolded c] upsert_all_def)
qed

text \<open>
  Claim C1 (as amended). Take a manager with \<open>db_available\<close> true, a \<open>domain_stats\<close>
  table that satisfies its \<open>UNIQUE(account_email, domain_name, date)\<close> constraint, and any
  sequence of \<open>save_domain_stats\<close> calls, for any mix of keys, in which every call is
  well-formed: the store is reachable, the record has its domain and its timestamp, its
  \<open>delivered_count\<close> fits \<open>INTEGER\<close> and its \<open>complaint_rate\<close> fits \<open>REAL\<close>. Afterwards,
  for the key of every call of the sequence, the table holds exactly one row with that
  key, and that row is the row of the \<open>VALUES\<close> list of the most recent call with that
  key: every column but the \<open>id\<close> comes from that call's input, the complaint rate as
  the server converts it to \<open>REAL\<close>.
\<close>

theorem upsert_last_write_wins:
  assumes "db_available mgr" and "domain_stats db = Some t"
    and "distinct (map row_key (rows t))"
    and "\<forall>c\<in>set cs. valid_call js c"
    and "c \<in> set cs"
  shows "\<exists>t' rid. domain_stats (snd (save_all js cs (mgr, db))) = Some t'
     \<and> rows_with_key t' (call_key c) = [call_row js (latest_call cs (call_key c)) rid]"
proof -
  from save_all_valid [OF assms(1,4,2)]
  have "domain_stats (snd (save_all js cs (mgr, db))) = Some (upsert_all js cs t)"
    by auto
  then show ?thesis
    using upsert_all_latest [OF assms(3,5), of js] by auto
qed

theorem upsert_last_write_wins_witness:
  "db_available new_manager
   \<and> domain_stats db_one_row \<noteq> None
   \<and> valid_call json_stub call_1 \<and> valid_call json_stub call_2
   \<and> (\<exists>t' rid. domain_stats (snd (save_all json_stub [call_1, call_2] (new_manager, db_one_row))) = Some t'
        \<and> rows_with_key t' (''a@yahoo.com'', ''x.com'', 19844)
            = [values_row json_stub stats_a2 ''a@yahoo.com'' 19844 9 rid])"
proof -
  let ?t = "\<lparr>next_id = 2, rows = [values_row json_stub stats_a ''a@yahoo.com'' 19844 7 1]\<rparr>"
  have h1: "db_available new_manager" by (simp add: new_manager_def)
  have h2: "domain_stats db_one_row = Some ?t" by (simp add: db_one_row_def)
  have h3: "distinct (map row_key (rows ?t))" by simp
  have v1: "valid_call json_stub call_1"
    by (simp add: valid_call_def fits_columns_def int4_range_def json_stub_def call_1_def
          healthy_env_def possible_hosts_def stats_a_def empty_stats_def)
  have v2: "valid_call json_stub call_2"
    by (simp add: valid_call_def fits_columns_def int4_range_def json_stub_def call_2_def
          healthy_env_def possible_hosts_def stats_a2_def stats_a_def empty_stats_def)
  have h4: "\<forall>c\<in>set [call_1, call_2]. valid_call json_stub c" using v1 v2 by simp
  have h5: "call_1 \<in> set [call_1, call_2]" by simp
  have k1: "call_key call_1 = (''a@yahoo.com'', ''x.com'', 19844)"
    by (simp add: call_key_def call_1_def stats_a_def empty_stats_def)
  have k2: "call_key call_2 = (''a@yahoo.com'', ''x.com'', 19844)"
    by (simp add: call_key_def call_2_def stats_a2_def stats_a_def empty_stats_def)
  have l: "latest_call [call_1, call_2] (''a@yahoo.com'', ''x.com'', 19844) = call_2"
    by (simp add: latest_call_def k1 k2)
  have r: "call_row json_stub call_2 = values_row json_stub stats_a2 ''a@yahoo.com'' 19844 9"
    by (simp add: call_row_def call_2_def)
  show ?thesis
    using h1 h2 v1 v2 upsert_last_write_wins [OF h1 h2 h3 h4 h5, unfolded k1 l r]
    by simp
qed

text \<open>
  The claim as stated, for any sequence of calls, fails: a call that raises (here a record
  without timestamp, refused by \<open>NOT NULL\<close>) turns \<open>db_available\<close> off, and the
  well-formed call after it is dropped. The row of the key then still has the
  \<open>delivered_count\<close> 100 of the first call, not the 150 of the most recent one, which
  returned False.
\<close>

theorem upsert_after_failed_call_counterexample:
  "call_key call_1 = call_key call_2
   \<and> (case call_2 of (env, current_date, now, st, account_email) \<Rightarrow> delivered_count st) = Some 150
   \<and> map c_delivered_count
        (rows_with_key (the (domain_stats (snd (save_all json_stub [call_1, call_bad, call_2]
           (new_manager, db_empty))))) (call_key call_2)) = [Some 100]
   \<and> fst (save_domain_stats json_stub healthy_env 19844 9
          (fst (save_all json_stub [call_1, call_bad] (new_manager, db_empty)))
          (snd (save_all json_stub [call_1, call_bad] (new_manager, db_empty)))
          stats_a2 ''a@yahoo.com'') = False"
proof -
  let ?r1 = "values_row json_stub stats_a ''a@yahoo.com'' 19844 7 (Suc 0)"
  let ?t1 = "\<lparr>next_id = 2, rows = [?r1]\<rparr>"
  let ?mgr1 = "new_manager\<lparr>config_host := ''postgres''\<rparr>"
  let ?db1 = "db_empty\<lparr>domain_stats := Some ?t1\<rparr>"
  have gc: "get_cursor healthy_env new_manager = (RealCursor, ?mgr1)"
    by (simp add: get_cursor_def get_connection_def possible_hosts_def healthy_env_def new_manager_def)
  have gc1: "get_cursor healthy_env ?mgr1 = (RealCursor, ?mgr1)"
    by (simp add: get_cursor_def get_connection_def possible_hosts_def healthy_env_def new_manager_def)
  have ok: "tx_ok healthy_env" by (simp add: healthy_env_def)
  have av: "db_available new_manager" "db_available ?mgr1" by (simp_all add: new_manager_def)
  have e1: "execute_upsert json_stub stats_a ''a@yahoo.com'' 19844 7 db_empty = Inr ?db1"
    by (simp add: execute_upsert_def db_empty_def empty_table_def insert_on_conflict_def
          stats_a_def empty_stats_def json_stub_def int4_range_def)
  have s1: "save_domain_stats json_stub healthy_env 19844 7 new_manager db_empty stats_a ''a@yahoo.com''
      = (True, ?mgr1, ?db1)"
    by (simp add: save_domain_stats_def av gc ok e1)
  have e2: "execute_upsert json_stub stats_no_timestamp ''a@yahoo.com'' 19844 8 ?db1 = Inl NotNullViolation"
    by (simp add: execute_upsert_def db_empty_def stats_no_timestamp_def stats_a2_def stats_a_def
          empty_stats_def json_stub_def int4_range_def)
  have s2: "save_domain_stats json_stub healthy_env 19844 8 ?mgr1 ?db1 stats_no_timestamp ''a@yahoo.com''
      = (False, ?mgr1\<lparr>db_available := False\<rparr>, ?db1)"
    by (simp add: save_domain_stats_def av gc1 ok e2)
  have s3: "save_domain_stats json_stub healthy_env 19844 9 (?mgr1\<lparr>db_available := False\<rparr>) ?db1
      stats_a2 ''a@yahoo.com'' = (False, ?mgr1\<lparr>db_available := False\<rparr>, ?db1)"
    by (simp add: save_domain_stats_def)
  have two: "save_all json_stub [call_1, call_bad] (new_manager, db_empty)
      = (?mgr1\<lparr>db_available := False\<rparr>, ?db1)"
    by (simp add: call_1_def call_bad_def s1 s2)
  have three: "save_all json_stub [call_1, call_bad, call_2] (new_manager, db_empty)
      = (?mgr1\<lparr>db_available := False\<rparr>, ?db1)"
    by (simp add: call_1_def call_bad_def call_2_def s1 s2 s3)
  have k1: "call_key call_1 = (''a@yahoo.com'', ''x.com'', 19844)"
    by (simp add: call_key_def call_1_def stats_a_def empty_stats_def)
  have k2: "call_key call_2 = (''a@yahoo.com'', ''x.com'', 19844)"
    by (simp add: call_key_def call_2_def stats_a2_def stats_a_def empty_stats_def)
  have kr: "row_key ?r1 = (''a@yahoo.com'', ''x.com'', 19844)"
    by (simp add: row_key_values_row stats_a_def empty_stats_def)
  have dc: "c_delivered_count ?r1 = Some 100"
    by (simp add: values_row_def stats_a_def empty_stats_def)
  have d2: "(case call_2 of (env, current_date, now, st, account_email) \<Rightarrow> delivered_count st) = Some 150"
    by (simp add: call_2_def stats_a2_def)
  have rows: "map c_delivered_count (rows_with_key ?t1 (''a@yahoo.com'', ''x.com'', 19844)) = [Some 100]"
    by (simp add: rows_with_key_def kr dc)
  have c1: "call_key call_1 = call_key call_2" by (simp add: k1 k2)
  have c3: "map c_delivered_count
        (rows_with_key (the (domain_stats (snd (save_all json_stub [call_1, call_bad, call_2]
           (new_manager, db_empty))))) (call_key call_2)) = [Some 100]"
    unfolding three k2 using rows by simp
  have c4: "fst (save_domain_stats json_stub healthy_env 19844 9
          (fst (save_all json_stub [call_1, call_bad] (new_manager, db_empty)))
          (snd (save_all json_stub [call_1, call_bad] (new_manager, db_empty)))
          stats_a2 ''a@yahoo.com'') = False"
    unfolding two fst_conv snd_conv s3 by simp
  show ?thesis using c1 d2 c3 c4 by blast
qed

section \<open>Latest row per entity\<close>






lemma where_account_subset: "set (where_account a rs) \<subseteq> set rs"
  by (simp add: where_account_def)














section \<open>The cycle loop\<close>

declare scraping_loop.simps [simp del]

lemma hourly_wait_full:
  "(\<forall>k<n. is_running_at stop (t + 300 * k)) \<Longrightarrow> hourly_wait n stop t = t + 300 * n"
proof (induction n arbitrary: t)
  case 0
  show ?case by simp
next
  case (Suc n)
  have r0: "is_running_at stop t" using Suc.prems [rule_format, of 0] by simp
  have "\<forall>k<n. is_running_at stop (t + 300 + 300 * k)"
  proof (intro allI impI)
    fix k assume "k < n"
    then have "is_running_at stop (t + 300 * Suc k)" using Suc.prems by blast
    then show "is_running_at stop (t + 300 + 300 * k)" by (simp add: algebra_simps)
  qed
  then have "hourly_wait n stop (t + 300) = t + 300 + 300 * n" by (rule Suc.IH)
  then show ?case using r0 by simp
qed

lemma cycle_failures_le:
  assumes "consecutive_failures w < max_consecutive_failures"
  shows "consecutive_failures (fst (cycle stop (result, d) w)) \<le> max_consecutive_failures"
    and "snd (cycle stop (result, d) w) = Break \<Longrightarrow>
           consecutive_failures (fst (cycle stop (result, d) w)) = max_consecutive_failures"
  using assms by (cases result; simp add: cycle_def Let_def split: if_splits)+

lemma scraping_loop_exit:
  assumes "scraping_loop stop scrapes w = Some w'"
    and "consecutive_failures w \<le> max_consecutive_failures"
  shows "\<not> is_running_at stop (clock w') \<or> consecutive_failures w' = max_consecutive_failures"
  using assms
proof (induction scrapes arbitrary: w)
  case Nil
  then show ?case
    by (auto simp: scraping_loop.simps [of stop "[]"] split: if_splits)
next
  case (Cons scrape rest)
  obtain result d where sc: "scrape = (result, d)" by (cases scrape)
  show ?case
  proof (cases "is_running_at stop (clock w) \<and> consecutive_failures w < max_consecutive_failures")
    case False
    have "scraping_loop stop (scrape # rest) w = Some w"
      by (subst scraping_loop.simps) (use False in auto)
    then have "w' = w" using Cons.prems(1) by simp
    then show ?thesis using False Cons.prems(2) by auto
  next
    case True
    obtain w1 f where c: "cycle stop scrape w = (w1, f)" by (cases "cycle stop scrape w")
    have unf: "scraping_loop stop (scrape # rest) w =
        (case f of Break \<Rightarrow> Some w1 | Continue \<Rightarrow> scraping_loop stop rest w1)"
      by (subst scraping_loop.simps) (use True c in \<open>simp split: flow.splits\<close>)
    show ?thesis
    proof (cases f)
      case Break
      then have "w' = w1" using Cons.prems(1) unf by simp
      then show ?thesis
        using cycle_failures_le(2) [of w stop result d] True c Break by (simp add: sc)
    next
      case Continue
      then have "scraping_loop stop rest w1 = Some w'" using Cons.prems(1) unf by simp
      moreover have "consecutive_failures w1 \<le> max_consecutive_failures"
        using cycle_failures_le(1) [of w stop result d] True c by (simp add: sc)
      ultimately show ?thesis by (rule Cons.IH)
    qed
  qed
qed

text \<open>
  Claim C6. In one pass of the loop of \<open>start_persistent_scraping\<close>: after a successful
  scrape \<open>consecutive_failures\<close> is 0 and, unless the flag is turned off meanwhile, the
  worker has slept the full 3600 seconds; after a failed scrape (a falsy result or an
  exception) \<open>consecutive_failures\<close> is one more and the delay before the next cycle is
  \<open>min(300 * consecutive_failures, 1800)\<close>. The loop is left exactly when the flag is off
  or \<open>consecutive_failures\<close> has reached 5: a loop that ends (started with the counter
  at most 5, as it is from 0) ends in such a state, in such a state it ends at once, and
  in any other state it goes on to the next scrape.
\<close>

theorem cycle_loop_discipline:
  "consecutive_failures (fst (cycle stop (Truthy, d) w)) = 0
   \<and> ((\<forall>k<12. is_running_at stop (clock w + d + 300 * k))
        \<longrightarrow> clock (fst (cycle stop (Truthy, d) w)) = clock w + d + 3600)
   \<and> consecutive_failures (fst (cycle stop (Falsy, d) w)) = consecutive_failures w + 1
   \<and> clock (fst (cycle stop (Falsy, d) w)) = clock w + d + min (300 * (consecutive_failures w + 1)) 1800
   \<and> consecutive_failures (fst (cycle stop (Raises, d) w)) = consecutive_failures w + 1
   \<and> (consecutive_failures w + 1 < 5
        \<longrightarrow> cycle stop (Raises, d) w =
            (w\<lparr>consecutive_failures := consecutive_failures w + 1,
               clock := clock w + d + min (300 * (consecutive_failures w + 1)) 1800\<rparr>, Continue))
   \<and> (scraping_loop stop scrapes w = Some w' \<and> consecutive_failures w \<le> 5
        \<longrightarrow> \<not> is_running_at stop (clock w') \<or> consecutive_failures w' = 5)
   \<and> (\<not> is_running_at stop (clock w) \<or> 5 \<le> consecutive_failures w
        \<longrightarrow> scraping_loop stop scrapes w = Some w)
   \<and> (is_running_at stop (clock w) \<and> consecutive_failures w < 5
        \<longrightarrow> scraping_loop stop [] w = None
            \<and> scraping_loop stop (scrape # rest) w =
                (case cycle stop scrape w of
                   (w1, Break) \<Rightarrow> Some w1
                 | (w1, Continue) \<Rightarrow> scraping_loop stop rest w1))"
proof -
  have a: "consecutive_failures (fst (cycle stop (Truthy, d) w)) = 0"
    by (simp add: cycle_def)
  have b: "clock (fst (cycle stop (Truthy, d) w)) = clock w + d + 3600"
    if "\<forall>k<12. is_running_at stop (clock w + d + 300 * k)"
    using hourly_wait_full [OF that] by (simp add: cycle_def)
  have c: "consecutive_failures (fst (cycle stop (Falsy, d) w)) = consecutive_failures w + 1"
    "clock (fst (cycle stop (Falsy, d) w)) = clock w + d + min (300 * (consecutive_failures w + 1)) 1800"
    by (simp_all add: cycle_def Let_def retry_delay_def)
  have e: "consecutive_failures (fst (cycle stop (Raises, d) w)) = consecutive_failures w + 1"
    by (simp add: cycle_def Let_def)
  have f: "cycle stop (Raises, d) w =
            (w\<lparr>consecutive_failures := consecutive_failures w + 1,
               clock := clock w + d + min (300 * (consecutive_failures w + 1)) 1800\<rparr>, Continue)"
    if "consecutive_failures w + 1 < 5"
    using that by (simp add: cycle_def Let_def retry_delay_def max_consecutive_failures_def)
  have g: "\<not> is_running_at stop (clock w') \<or> consecutive_failures w' = 5"
    if "scraping_loop stop scrapes w = Some w' \<and> consecutive_failures w \<le> 5"
    using scraping_loop_exit [of stop scrapes w w'] that by (simp add: max_consecutive_failures_def)
  have h: "scraping_loop stop scrapes w = Some w"
    if "\<not> is_running_at stop (clock w) \<or> 5 \<le> consecutive_failures w"
    by (subst scraping_loop.simps) (use that in \<open>auto simp: max_consecutive_failures_def\<close>)
  have i: "scraping_loop stop [] w = None
            \<and> scraping_loop stop (scrape # rest) w =
                (case cycle stop scrape w of
                   (w1, Break) \<Rightarrow> Some w1
                 | (w1, Continue) \<Rightarrow> scraping_loop stop rest w1)"
    if "is_running_at stop (clock w) \<and> consecutive_failures w < 5"
    using that
    by (simp add: scraping_loop.simps [of stop "[]"] scraping_loop.simps [of stop "scrape # rest"]
          max_consecutive_failures_def)
  show ?thesis using a b c e f g h i by blast
qed

theorem cycle_loop_discipline_witness:
  "consecutive_failures (fst (cycle None (Truthy, 10) (new_worker 0))) = 0
   \<and> clock (fst (cycle None (Truthy, 10) (new_worker 0))) = 3610
   \<and> consecutive_failures (fst (cycle None (Falsy, 10) (new_worker 0))) = 1
   \<and> clock (fst (cycle None (Falsy, 10) (new_worker 0))) = 310
   \<and> scraping_loop None [(Falsy, 10), (Falsy, 10), (Falsy, 10), (Falsy, 10), (Falsy, 10)] (new_worker 0)
       = Some \<lparr>cycle_count = 5, consecutive_failures = 5, clock = 4550\<rparr>
   \<and> is_running_at None 4550
   \<and> consecutive_failures \<lparr>cycle_count = 5, consecutive_failures = 5, clock = 4550\<rparr> = 5
   \<and> scraping_loop None [] (new_worker 0) = None"
proof -
  let ?scrapes = "[(Falsy, 10), (Falsy, 10), (Falsy, 10), (Falsy, 10), (Falsy, 10)]"
  let ?w' = "\<lparr>cycle_count = 5, consecutive_failures = 5, clock = 4550\<rparr>"
  have run: "scraping_loop None ?scrapes (new_worker 0) = Some ?w'"
    by code_simp
  have hour: "\<forall>k<12. is_running_at None (clock (new_worker 0) + 10 + 300 * k)"
    by (simp add: is_running_at_def)
  have start: "is_running_at None (clock (new_worker 0)) \<and> consecutive_failures (new_worker 0) < 5"
    by (simp add: is_running_at_def new_worker_def)
  have le: "consecutive_failures (new_worker 0) \<le> 5" by (simp add: new_worker_def)
  show ?thesis
    using cycle_loop_discipline [of None 10 "new_worker 0" ?scrapes ?w' "(Falsy, 10)" "[]"]
      run hour start le
    by (simp add: new_worker_def is_running_at_def)
qed

text \<open>
  Claim C7, evaluated where it fails. A worker whose scrapes fail sleeps its failure
  backoff in one \<open>time.sleep(retry_delay)\<close>. It starts at time 0; the first failed scrape
  is followed by a sleep of 300 seconds, the second, at 300, by a sleep of 600 seconds.
  \<open>stop_scraping\<close> is called at 301, one second into the second sleep. The loop is left
  only at 900, when that sleep is over: 599 seconds after the request, not within the
  300 seconds of one check of the hourly wait.
\<close>

theorem backoff_sleep_ignores_stop:
  "scraping_loop (Some 301) [(Falsy, 0), (Falsy, 0)] (new_worker 0)
     = Some \<lparr>cycle_count = 2, consecutive_failures = 2, clock = 900\<rparr>
   \<and> is_running_at (Some 301) 300
   \<and> \<not> is_running_at (Some 301) 301
   \<and> retry_delay 2 = 600"
  by code_simp

section \<open>The monitoring loop\<close>















end
